theory Spec2Isabelle
  imports Complex_Main "HOL-Library.Sublist"
begin

section \<open>Strings of the host language\<close>

text \<open>
  The command interpreter (\<open>nlpProcessor\<close>) works on JavaScript strings. A string is
  modelled as a \<open>string\<close> whose characters are the code units U+0000 to U+00FF; on this
  range \<open>toLowerCase\<close> maps one code unit to one code unit, and the white space of
  \<open>trim\<close> and of the regular expression class \<open>\s\<close> is TAB, LF, VT, FF, CR, SPACE
  and NBSP.
\<close>

definition code :: "char \<Rightarrow> nat" where
  "code c = of_char c"

definition isSpace :: "char \<Rightarrow> bool" where
  "isSpace c \<longleftrightarrow> code c \<in> {9, 10, 11, 12, 13, 32, 160}"

definition isDigit :: "char \<Rightarrow> bool" where
  "isDigit c \<longleftrightarrow> 48 \<le> code c \<and> code c \<le> 57"

definition isUpper :: "char \<Rightarrow> bool" where
  "isUpper c \<longleftrightarrow> 65 \<le> code c \<and> code c \<le> 90"

definition lowerChar :: "char \<Rightarrow> char" where
  "lowerChar c =
     (if isUpper c \<or> (192 \<le> code c \<and> code c \<le> 222 \<and> code c \<noteq> 215)
      then char_of (code c + 32) else c)"

definition toLowerCase :: "string \<Rightarrow> string" where
  "toLowerCase s = map lowerChar s"

definition trim :: "string \<Rightarrow> string" where
  "trim s = rev (dropWhile isSpace (rev (dropWhile isSpace s)))"

text \<open>\<open>text.includes(p)\<close>: \<open>p\<close> occurs in \<open>text\<close> as a contiguous substring.\<close>

fun str_includes :: "string \<Rightarrow> string \<Rightarrow> bool" where
  "str_includes [] p = (p = [])"
| "str_includes (c # cs) p = (prefix p (c # cs) \<or> str_includes cs p)"

text \<open>
  \<open>text.split(/\s+/)\<close>: the pieces between the maximal runs of white space. A run at
  the start or at the end leaves an empty piece there, and the empty string splits into
  one empty piece. The flag tells that the scan is inside a run; \<open>acc\<close> is the current
  piece, reversed.
\<close>

fun splitWs :: "bool \<Rightarrow> string \<Rightarrow> string \<Rightarrow> string list" where
  "splitWs inRun acc [] = [rev acc]"
| "splitWs inRun acc (c # cs) =
     (if isSpace c then (if inRun then splitWs True acc cs else rev acc # splitWs True [] cs)
      else splitWs False (c # acc) cs)"

definition split_ws :: "string \<Rightarrow> string list" where
  "split_ws s = splitWs False [] s"

text \<open>\<open>parts.join(sep)\<close>.\<close>

fun join :: "string \<Rightarrow> string list \<Rightarrow> string" where
  "join sep [] = []"
| "join sep [x] = x"
| "join sep (x # y # ys) = x @ sep @ join sep (y # ys)"

text \<open>\<open>[...new Set(words)]\<close>: duplicates removed, the first occurrence kept.\<close>

fun uniq :: "string list \<Rightarrow> string list \<Rightarrow> string list" where
  "uniq seen [] = []"
| "uniq seen (w # ws) = (if w \<in> set seen then uniq seen ws else w # uniq (w # seen) ws)"

section \<open>Regular expressions\<close>

text \<open>
  The patterns of the interpreter use literals, character classes with a quantifier,
  alternation, an optional group, one capturing group and the end anchor. The matcher
  is the backtracking one of the language: alternatives in order, a greedy quantifier
  longest first, a lazy one shortest first, and the first start position that matches
  wins. With the flag \<open>i\<close> a character is compared after folding an upper-case ASCII
  letter to lower case (every pattern below is written in lower case).
\<close>

datatype atom = Range char char | Ch char | Digit | Space

datatype rx =
    Lit string
  | Rep bool nat "nat option" "atom list"
  | Seq rx rx
  | Alt rx rx
  | Opt rx
  | Grp rx
  | Eol

fun atom_has :: "atom \<Rightarrow> char \<Rightarrow> bool" where
  "atom_has (Range a b) c = (code a \<le> code c \<and> code c \<le> code b)"
| "atom_has (Ch a) c = (c = a)"
| "atom_has Digit c = isDigit c"
| "atom_has Space c = isSpace c"

definition fold_case :: "bool \<Rightarrow> char \<Rightarrow> char" where
  "fold_case ci c = (if ci \<and> isUpper c then char_of (code c + 32) else c)"

definition in_class :: "bool \<Rightarrow> atom list \<Rightarrow> char \<Rightarrow> bool" where
  "in_class ci cl c = list_ex (\<lambda>a. atom_has a (fold_case ci c)) cl"

fun strip_lit :: "bool \<Rightarrow> string \<Rightarrow> string \<Rightarrow> string option" where
  "strip_lit ci [] s = Some s"
| "strip_lit ci (l # ls) [] = None"
| "strip_lit ci (l # ls) (c # cs) = (if fold_case ci c = l then strip_lit ci ls cs else None)"

fun dec :: "nat option \<Rightarrow> nat option" where
  "dec None = None"
| "dec (Some h) = Some (h - 1)"

fun greedy :: "(char \<Rightarrow> bool) \<Rightarrow> nat \<Rightarrow> nat option \<Rightarrow> string \<Rightarrow> (string \<Rightarrow> 'a option) \<Rightarrow> 'a option" where
  "greedy p lo hi [] k = (if lo = 0 then k [] else None)"
| "greedy p lo hi (c # cs) k =
     (case (if p c \<and> hi \<noteq> Some 0 then greedy p (lo - 1) (dec hi) cs k else None) of
        Some r \<Rightarrow> Some r
      | None \<Rightarrow> (if lo = 0 then k (c # cs) else None))"

fun lazy :: "(char \<Rightarrow> bool) \<Rightarrow> nat \<Rightarrow> nat option \<Rightarrow> string \<Rightarrow> (string \<Rightarrow> 'a option) \<Rightarrow> 'a option" where
  "lazy p lo hi [] k = (if lo = 0 then k [] else None)"
| "lazy p lo hi (c # cs) k =
     (case (if lo = 0 then k (c # cs) else None) of
        Some r \<Rightarrow> Some r
      | None \<Rightarrow> (if p c \<and> hi \<noteq> Some 0 then lazy p (lo - 1) (dec hi) cs k else None))"

text \<open>
  \<open>rx_run ci r s g k\<close> matches \<open>r\<close> at the start of \<open>s\<close>; \<open>g\<close> is group 1 so far
  (\<open>None\<close> is \<open>undefined\<close>) and \<open>k\<close> is the rest of the pattern, called on the
  remaining input. \<open>None\<close> sends the matcher back to the last open choice.
\<close>

fun rx_run :: "bool \<Rightarrow> rx \<Rightarrow> string \<Rightarrow> string option \<Rightarrow> (string \<Rightarrow> string option \<Rightarrow> 'a option) \<Rightarrow> 'a option" where
  "rx_run ci (Lit l) s g k = (case strip_lit ci l s of Some s' \<Rightarrow> k s' g | None \<Rightarrow> None)"
| "rx_run ci (Rep gr lo hi cl) s g k =
     (if gr then greedy (in_class ci cl) lo hi s (\<lambda>s'. k s' g)
      else lazy (in_class ci cl) lo hi s (\<lambda>s'. k s' g))"
| "rx_run ci (Seq a b) s g k = rx_run ci a s g (\<lambda>s' g'. rx_run ci b s' g' k)"
| "rx_run ci (Alt a b) s g k =
     (case rx_run ci a s g k of Some r \<Rightarrow> Some r | None \<Rightarrow> rx_run ci b s g k)"
| "rx_run ci (Opt a) s g k =
     (case rx_run ci a s g k of Some r \<Rightarrow> Some r | None \<Rightarrow> k s g)"
| "rx_run ci (Grp a) s g k =
     rx_run ci a s g (\<lambda>s' g'. k s' (Some (take (length s - length s') s)))"
| "rx_run ci Eol s g k = (if s = [] then k s g else None)"

text \<open>
  \<open>text.match(r)\<close> for a pattern without the flag \<open>g\<close>: \<open>None\<close> is \<open>null\<close>, and
  \<open>Some g\<close> is a match whose group 1 is \<open>g\<close>.
\<close>

fun str_match :: "bool \<Rightarrow> rx \<Rightarrow> string \<Rightarrow> string option option" where
  "str_match ci r [] = rx_run ci r [] None (\<lambda>s' g. Some g)"
| "str_match ci r (c # cs) =
     (case rx_run ci r (c # cs) None (\<lambda>s' g. Some g) of
        Some g \<Rightarrow> Some g
      | None \<Rightarrow> str_match ci r cs)"

section \<open>Numbers\<close>

text \<open>
  A number of the host language is an IEEE 754 double. A finite double is modelled by
  its exact rational value, and each arithmetic operation computes the exact result and
  rounds it to the nearest double, ties to the even significand (53 bits). The rounding
  is exact for results in the normal range, which holds every number the interpreter
  computes.
\<close>

definition rne :: "rat \<Rightarrow> int" where
  "rne q =
     (let f = \<lfloor>q\<rfloor>; r = q - of_int f
      in if r < 1 / 2 then f else if 1 / 2 < r then f + 1 else if even f then f else f + 1)"

fun norm53 :: "nat \<Rightarrow> rat \<Rightarrow> rat \<Rightarrow> rat" where
  "norm53 0 q u = q * u"
| "norm53 (Suc n) q u =
     (if q < 2 ^ 52 then norm53 n (2 * q) (u / 2)
      else if 2 ^ 53 \<le> q then norm53 n (q / 2) (2 * u)
      else of_int (rne q) * u)"

definition toDouble :: "rat \<Rightarrow> rat" where
  "toDouble q = (if q = 0 then 0 else if q < 0 then - norm53 2200 (- q) 1 else norm53 2200 q 1)"

definition dadd :: "rat \<Rightarrow> rat \<Rightarrow> rat" where
  "dadd x y = toDouble (x + y)"

definition dmul :: "rat \<Rightarrow> rat \<Rightarrow> rat" where
  "dmul x y = toDouble (x * y)"

text \<open>The decimal literals of the source.\<close>

definition d01 :: rat where "d01 = toDouble (1 / 10)"
definition d02 :: rat where "d02 = toDouble (2 / 10)"
definition d03 :: rat where "d03 = toDouble (3 / 10)"
definition d04 :: rat where "d04 = toDouble (4 / 10)"
definition d07 :: rat where "d07 = toDouble (7 / 10)"

section \<open>Data model\<close>

text \<open>
  \<open>Date\<close> belongs to the host: its values are of a type \<open>'d\<close>, and the three
  operations the interpreter uses are taken from a record. \<open>now\<close> is the value of
  \<open>new Date()\<close> during the call (the two readings that one call makes are taken to be
  the same instant), \<open>minusDays d n\<close> is \<open>d\<close> after \<open>d.setDate(d.getDate() - n)\<close>, and
  \<open>newDate v\<close> is \<open>new Date(v)\<close> for a string or \<open>undefined\<close>.
\<close>

record 'd dates =
  now :: 'd
  minusDays :: "'d \<Rightarrow> nat \<Rightarrow> 'd"
  newDate :: "string option \<Rightarrow> 'd"

datatype CommandIntent =
    search_cases
  | filter_cases
  | temporal_query
  | location_query
  | suspect_query
  | crime_type_query
  | unknown

text \<open>An optional field of an interface is an \<open>option\<close>: \<open>None\<close> when the key is absent.\<close>

record 'd TimeRange =
  tr_start :: "'d option"
  tr_end :: "'d option"
  relative :: "string option"

record 'd CommandEntities =
  crimeType :: "string list option"
  location :: "string option"
  timeRange :: "'d TimeRange option"
  suspect :: "string option"
  caseId :: "string option"
  "keywords" :: "string list option"

record 'd ParsedCommand =
  intent :: CommandIntent
  entities :: "'d CommandEntities"
  confidence :: rat
  rawText :: string
  needsClarification :: "bool option"
  clarificationQuestion :: "string option"

text \<open>
  Where the source would leave its types: \<open>TypeError\<close> is what \<open>m[1].trim()\<close> raises
  when group 1 of the match \<open>m\<close> is \<open>undefined\<close>, and \<open>UndefinedField\<close> stands for
  \<open>entities.caseId = m[1]\<close> storing \<open>undefined\<close> under a key declared a string.
\<close>

datatype error = TypeError | UndefinedField

definition CRIME_TYPES :: "string list" where
  "CRIME_TYPES =
     [''armed robbery'', ''robbery'', ''burglary'', ''theft'', ''assault'', ''homicide'',
      ''murder'', ''fraud'', ''arson'', ''kidnapping'', ''vandalism'', ''drug trafficking'',
      ''weapons violation'']"

text \<open>The entries of \<open>TEMPORAL_KEYWORDS\<close> in insertion order: keyword, days, offset.\<close>

definition TEMPORAL_KEYWORDS :: "(string \<times> nat \<times> nat option) list" where
  "TEMPORAL_KEYWORDS =
     [(''today'', 0, None), (''yesterday'', 1, None), (''this week'', 7, None),
      (''last week'', 14, Some 7), (''this month'', 30, None), (''last month'', 60, Some 30),
      (''this year'', 365, None)]"

section \<open>The interpreter\<close>

definition containsCrimeType :: "string \<Rightarrow> bool" where
  "containsCrimeType text = list_ex (\<lambda>type. str_includes text type) CRIME_TYPES"

definition containsLocation :: "string \<Rightarrow> bool" where
  "containsLocation text \<longleftrightarrow>
     str_includes text ''in '' \<or> str_includes text ''near '' \<or> str_includes text ''at '' \<or>
     str_includes text ''around '' \<or> str_includes text ''sector'' \<or>
     str_includes text ''district''"

definition containsTimeReference :: "string \<Rightarrow> bool" where
  "containsTimeReference text =
     list_ex (\<lambda>keyword. str_includes text keyword) (map fst TEMPORAL_KEYWORDS)"

definition determineIntent :: "string \<Rightarrow> CommandIntent" where
  "determineIntent text =
     (if str_includes text ''show'' \<or> str_includes text ''find'' \<or>
         str_includes text ''search'' \<or> str_includes text ''get''
      then (if containsCrimeType text then crime_type_query
            else if containsLocation text then location_query
            else if containsTimeReference text then temporal_query
            else search_cases)
      else if str_includes text ''filter'' \<or> str_includes text ''narrow'' \<or>
              str_includes text ''matching''
      then filter_cases
      else if containsTimeReference text then temporal_query
      else if containsLocation text then location_query
      else if str_includes text ''suspect'' \<or> str_includes text ''perpetrator''
      then suspect_query
      else unknown)"

text \<open>
  \<open>extractTimeRange\<close>: the loop over the entries of the table, then the literal date
  \<open>/(\d{1,2}\/\d{1,2}\/\d{4})/\<close>.
\<close>

fun scanKeywords :: "'d dates \<Rightarrow> string \<Rightarrow> (string \<times> nat \<times> nat option) list \<Rightarrow> 'd TimeRange option" where
  "scanKeywords env text [] = None"
| "scanKeywords env text ((keyword, days, offset) # rest) =
     (if str_includes text keyword
      then (let end0 = now env;
                start0 = now env;
                start1 = minusDays env start0 days;
                end1 = (case offset of
                          None \<Rightarrow> end0
                        | Some off \<Rightarrow> if off \<noteq> 0 then minusDays env end0 off else end0)
            in Some \<lparr>tr_start = Some start1, tr_end = Some end1, relative = Some keyword\<rparr>)
      else scanKeywords env text rest)"

definition date_rx :: rx where
  "date_rx =
     Grp (Seq (Rep True 1 (Some 2) [Digit])
         (Seq (Lit ''/'')
         (Seq (Rep True 1 (Some 2) [Digit])
         (Seq (Lit ''/'')
              (Rep True 4 (Some 4) [Digit])))))"

definition extractTimeRange :: "'d dates \<Rightarrow> string \<Rightarrow> 'd TimeRange option" where
  "extractTimeRange env text =
     (case scanKeywords env text TEMPORAL_KEYWORDS of
        Some r \<Rightarrow> Some r
      | None \<Rightarrow>
          (case str_match False date_rx text of
             Some dateMatch \<Rightarrow>
               (let date = newDate env dateMatch
                in Some \<lparr>tr_start = Some date, tr_end = Some date, relative = None\<rparr>)
           | None \<Rightarrow> None))"

definition stopWords :: "string list" where
  "stopWords =
     [''the'', ''a'', ''an'', ''and'', ''or'', ''but'', ''in'', ''on'', ''at'', ''to'', ''for'',
      ''of'', ''with'', ''by'', ''from'', ''show'', ''find'', ''search'', ''get'', ''me'',
      ''all'']"

definition extractKeywords :: "string \<Rightarrow> string list" where
  "extractKeywords text =
     (let words =
            filter (\<lambda>word. 2 < length word \<and> word \<notin> set stopWords)
              (map (\<lambda>word. filter (in_class False [Range CHR ''a'' CHR ''z'', Range CHR ''0'' CHR ''9''])
                              (toLowerCase word))
                 (split_ws text))
      in uniq [] words)"

text \<open>
  The patterns of \<open>extractEntities\<close>, all with the flag \<open>i\<close>:
  \<^verbatim>\<open>/(?:in|near|at|around)\s+([a-z0-9\s]+?)(?:\s|$)/i\<close>,
  \<^verbatim>\<open>/sector\s+(\d+)/i\<close>,
  \<^verbatim>\<open>/district\s+([a-z0-9\s]+)/i\<close>,
  \<^verbatim>\<open>/suspect(?:\s+named)?\s+([a-z\s]+?)(?:\s|$)/i\<close> and
  \<^verbatim>\<open>/case\s+(?:id\s+)?([a-z0-9-]+)/i\<close>.
\<close>

definition spaces :: rx where
  "spaces = Rep True 1 None [Space]"

definition space_or_end :: rx where
  "space_or_end = Alt (Rep True 1 (Some 1) [Space]) Eol"

definition location_rx :: rx where
  "location_rx =
     Seq (Alt (Lit ''in'') (Alt (Lit ''near'') (Alt (Lit ''at'') (Lit ''around''))))
    (Seq spaces
    (Seq (Grp (Rep False 1 None [Range CHR ''a'' CHR ''z'', Range CHR ''0'' CHR ''9'', Space]))
         space_or_end))"

definition sector_rx :: rx where
  "sector_rx = Seq (Lit ''sector'') (Seq spaces (Grp (Rep True 1 None [Digit])))"

definition district_rx :: rx where
  "district_rx =
     Seq (Lit ''district'')
    (Seq spaces
         (Grp (Rep True 1 None [Range CHR ''a'' CHR ''z'', Range CHR ''0'' CHR ''9'', Space])))"

definition suspect_rx :: rx where
  "suspect_rx =
     Seq (Lit ''suspect'')
    (Seq (Opt (Seq spaces (Lit ''named'')))
    (Seq spaces
    (Seq (Grp (Rep False 1 None [Range CHR ''a'' CHR ''z'', Space]))
         space_or_end)))"

definition caseId_rx :: rx where
  "caseId_rx =
     Seq (Lit ''case'')
    (Seq spaces
    (Seq (Opt (Seq (Lit ''id'') spaces))
         (Grp (Rep True 1 None [Range CHR ''a'' CHR ''z'', Range CHR ''0'' CHR ''9'', Ch CHR ''-'']))))"

definition no_entities :: "'d CommandEntities" where
  "no_entities =
     \<lparr>crimeType = None, location = None, timeRange = None, suspect = None, caseId = None,
      keywords = None\<rparr>"

definition or_else :: "'a option \<Rightarrow> 'a option \<Rightarrow> 'a option" where
  "or_else a b = (case a of Some x \<Rightarrow> Some x | None \<Rightarrow> b)"

definition locationMatch :: "string \<Rightarrow> string option option" where
  "locationMatch text =
     or_else (str_match True location_rx text)
       (or_else (str_match True sector_rx text) (str_match True district_rx text))"

definition suspectMatch :: "string \<Rightarrow> string option option" where
  "suspectMatch text = str_match True suspect_rx text"

definition caseIdMatch :: "string \<Rightarrow> string option option" where
  "caseIdMatch text = str_match True caseId_rx text"

definition setLocation :: "string \<Rightarrow> 'd CommandEntities \<Rightarrow> error + 'd CommandEntities" where
  "setLocation text ents =
     (case locationMatch text of
        None \<Rightarrow> Inr ents
      | Some None \<Rightarrow> Inl TypeError
      | Some (Some g) \<Rightarrow> Inr (ents\<lparr>location := Some (trim g)\<rparr>))"

definition setSuspect :: "string \<Rightarrow> 'd CommandEntities \<Rightarrow> error + 'd CommandEntities" where
  "setSuspect text ents =
     (case suspectMatch text of
        None \<Rightarrow> Inr ents
      | Some None \<Rightarrow> Inl TypeError
      | Some (Some g) \<Rightarrow> Inr (ents\<lparr>suspect := Some (trim g)\<rparr>))"

definition setCaseId :: "string \<Rightarrow> 'd CommandEntities \<Rightarrow> error + 'd CommandEntities" where
  "setCaseId text ents =
     (case caseIdMatch text of
        None \<Rightarrow> Inr ents
      | Some None \<Rightarrow> Inl UndefinedField
      | Some (Some g) \<Rightarrow> Inr (ents\<lparr>caseId := Some g\<rparr>))"

definition extractEntities :: "'d dates \<Rightarrow> string \<Rightarrow> error + 'd CommandEntities" where
  "extractEntities env text =
     (let ents = no_entities;
          crimeTypes = filter (\<lambda>type. str_includes text type) CRIME_TYPES;
          ents = (if 0 < length crimeTypes then ents\<lparr>crimeType := Some crimeTypes\<rparr> else ents)
      in case setLocation text ents of
           Inl e \<Rightarrow> Inl e
         | Inr ents \<Rightarrow>
             (let ents = (case extractTimeRange env text of
                            Some r \<Rightarrow> ents\<lparr>timeRange := Some r\<rparr>
                          | None \<Rightarrow> ents)
              in case setSuspect text ents of
                   Inl e \<Rightarrow> Inl e
                 | Inr ents \<Rightarrow>
                     (case setCaseId text ents of
                        Inl e \<Rightarrow> Inl e
                      | Inr ents \<Rightarrow>
                          (let kws = extractKeywords text
                           in Inr (if 0 < length kws then ents\<lparr>keywords := Some kws\<rparr>
                                   else ents)))))"

text \<open>\<open>Object.keys(entities).length\<close>: the number of keys present.\<close>

definition keyCount :: "'d CommandEntities \<Rightarrow> nat" where
  "keyCount e =
     length (filter id
       [crimeType e \<noteq> None, location e \<noteq> None, timeRange e \<noteq> None, suspect e \<noteq> None,
        caseId e \<noteq> None, keywords e \<noteq> None])"

definition calculateConfidence :: "CommandIntent \<Rightarrow> 'd CommandEntities \<Rightarrow> string \<Rightarrow> rat" where
  "calculateConfidence intent' ents text =
     (let score = 0;
          score = (if intent' \<noteq> unknown then dadd score d03 else score);
          entityCount = keyCount ents;
          score = dadd score (min (dmul (of_nat entityCount) d02) d04);
          wordCount = length (split_ws text);
          score = (if 4 \<le> wordCount then dadd score d02 else score);
          score = (if 8 \<le> wordCount then dadd score d01 else score)
      in min score 1)"

text \<open>
  A condition \<open>if (v)\<close> or \<open>!v\<close> on an optional string takes \<open>v\<close> as true when the key
  is present and the string is not empty; an array or an object is true when present.
\<close>

definition truthy :: "string option \<Rightarrow> bool" where
  "truthy v = (case v of None \<Rightarrow> False | Some s \<Rightarrow> s \<noteq> [])"

definition generateClarificationQuestion :: "CommandIntent \<Rightarrow> 'd CommandEntities \<Rightarrow> string \<Rightarrow> string" where
  "generateClarificationQuestion intent' ents text =
     (if intent' = unknown
      then ''I didn't quite understand that. Could you please rephrase your query?''
      else if crimeType ents = None \<and> \<not> truthy (location ents) \<and> timeRange ents = None
      then ''Could you please specify more details, such as crime type, location, or time period?''
      else if (case crimeType ents of None \<Rightarrow> False | Some ts \<Rightarrow> 1 < length ts)
      then ''I detected multiple crime types: '' @ join '', '' (the (crimeType ents)) @
           ''. Which one would you like to search for?''
      else if timeRange ents = None
      then ''What time period would you like to search? For example: this month, last week, or a specific date?''
      else if \<not> truthy (location ents)
      then ''Which location or sector would you like to search?''
      else ''Could you please provide more specific details for your search?'')"

definition parseVoiceCommand :: "'d dates \<Rightarrow> string \<Rightarrow> error + 'd ParsedCommand" where
  "parseVoiceCommand env text =
     (let normalizedText = trim (toLowerCase text);
          intent' = determineIntent normalizedText
      in case extractEntities env normalizedText of
           Inl e \<Rightarrow> Inl e
         | Inr ents \<Rightarrow>
             (let conf = calculateConfidence intent' ents normalizedText;
                  needs = (conf < d07);
                  question =
                    (if needs then Some (generateClarificationQuestion intent' ents normalizedText)
                     else None)
              in Inr \<lparr>intent = intent', entities = ents, confidence = conf, rawText = text,
                      needsClarification = Some needs, clarificationQuestion = question\<rparr>))"

text \<open>\<open>formatCommandSummary\<close>, with \<open>parsed.entities.timeRange?.relative\<close> first.\<close>

definition relativeOf :: "'d CommandEntities \<Rightarrow> string option" where
  "relativeOf ents = (case timeRange ents of None \<Rightarrow> None | Some r \<Rightarrow> relative r)"

definition formatCommandSummary :: "'d ParsedCommand \<Rightarrow> string" where
  "formatCommandSummary parsed =
     (let ents = entities parsed;
          parts = [];
          parts = (if (case crimeType ents of None \<Rightarrow> False | Some ts \<Rightarrow> 0 < length ts)
                   then parts @ [''Crime: '' @ join '', '' (the (crimeType ents))] else parts);
          parts = (if truthy (location ents)
                   then parts @ [''Location: '' @ the (location ents)] else parts);
          parts = (if truthy (relativeOf ents)
                   then parts @ [''Time: '' @ the (relativeOf ents)] else parts);
          parts = (if truthy (suspect ents)
                   then parts @ [''Suspect: '' @ the (suspect ents)] else parts);
          parts = (if truthy (caseId ents)
                   then parts @ [''Case ID: '' @ the (caseId ents)] else parts)
      in if 0 < length parts then join '' | '' parts else ''General search'')"

section \<open>Notions used by the properties\<close>

text \<open>\<open>binds r\<close>: every match of \<open>r\<close> goes through its capturing group.\<close>

fun binds :: "rx \<Rightarrow> bool" where
  "binds (Grp a) = True"
| "binds (Seq a b) = (binds a \<or> binds b)"
| "binds (Alt a b) = (binds a \<and> binds b)"
| "binds r = False"

text \<open>Group 1 of a match result, and a list as an optional field.\<close>

definition group1 :: "string option option \<Rightarrow> string option" where
  "group1 m = (case m of Some (Some g) \<Rightarrow> Some g | _ \<Rightarrow> None)"

definition nonempty :: "'a list \<Rightarrow> 'a list option" where
  "nonempty xs = (if xs = [] then None else Some xs)"

text \<open>
  A host for the concrete runs whose dates are terms: the clock reading, a date moved
  back by a number of days, and a date parsed from a value.
\<close>

datatype stamp = Now | Before stamp nat | Parsed "string option"

definition symbolic_host :: "stamp dates" where
  "symbolic_host = \<lparr>now = Now, minusDays = Before, newDate = Parsed\<rparr>"

text \<open>
  The score of \<open>calculateConfidence\<close> as a function of what it reads: whether the intent
  is known, the number of keys and the number of words.
\<close>

definition scoreOf :: "bool \<Rightarrow> nat \<Rightarrow> nat \<Rightarrow> rat" where
  "scoreOf known entityCount wordCount =
     (let score = (if known then dadd 0 d03 else 0);
          score = dadd score (min (dmul (of_nat entityCount) d02) d04);
          score = (if 4 \<le> wordCount then dadd score d02 else score);
          score = (if 8 \<le> wordCount then dadd score d01 else score)
      in min score 1)"

text \<open>The time range that an entry of the keyword table yields.\<close>

definition windowOf :: "'d dates \<Rightarrow> string \<times> nat \<times> nat option \<Rightarrow> 'd TimeRange" where
  "windowOf env entry =
     (case entry of (keyword, days, offset) \<Rightarrow>
        \<lparr>tr_start = Some (minusDays env (now env) days),
         tr_end = Some (case offset of None \<Rightarrow> now env
                        | Some off \<Rightarrow> if off \<noteq> 0 then minusDays env (now env) off else now env),
         relative = Some keyword\<rparr>)"

text \<open>
  The parts of a summary, field by field in the fixed order: a field gives a part when
  it passes the test that the code makes, that is, when it is present and not empty.
\<close>

definition shown :: "string \<Rightarrow> string option \<Rightarrow> string list" where
  "shown label v = (case v of None \<Rightarrow> [] | Some s \<Rightarrow> if s = [] then [] else [label @ s])"

definition summaryParts :: "'d CommandEntities \<Rightarrow> string list" where
  "summaryParts e =
     (case crimeType e of
        None \<Rightarrow> []
      | Some ts \<Rightarrow> if ts = [] then [] else [''Crime: '' @ join '', '' ts]) @
     shown ''Location: '' (location e) @
     shown ''Time: '' (relativeOf e) @
     shown ''Suspect: '' (suspect e) @
     shown ''Case ID: '' (caseId e)"

text \<open>
  The summary in the words of the specification: the labelled fields that are present,
  in the fixed order. The entities of a valid command have no empty field: a field that
  is present holds what was detected, a list with an entry or a string with a character.
\<close>

definition present :: "string \<Rightarrow> string option \<Rightarrow> string list" where
  "present label v = (case v of None \<Rightarrow> [] | Some s \<Rightarrow> [label @ s])"

definition presentParts :: "'d CommandEntities \<Rightarrow> string list" where
  "presentParts e =
     (case crimeType e of None \<Rightarrow> [] | Some ts \<Rightarrow> [''Crime: '' @ join '', '' ts]) @
     present ''Location: '' (location e) @
     present ''Time: '' (relativeOf e) @
     present ''Suspect: '' (suspect e) @
     present ''Case ID: '' (caseId e)"

definition validEntities :: "'d CommandEntities \<Rightarrow> bool" where
  "validEntities e \<longleftrightarrow>
     crimeType e \<noteq> Some [] \<and> location e \<noteq> Some [] \<and> relativeOf e \<noteq> Some [] \<and>
     suspect e \<noteq> Some [] \<and> caseId e \<noteq> Some []"

text \<open>
  The number of characters that a quantified class takes at most at the start of a
  string: the leading run of the class, cut at the upper bound of the quantifier.
\<close>

definition run_len :: "(char \<Rightarrow> bool) \<Rightarrow> nat option \<Rightarrow> string \<Rightarrow> nat" where
  "run_len p hi s = length (takeWhile p (case hi of None \<Rightarrow> s | Some h \<Rightarrow> take h s))"

text \<open>
  A literal date in the words of the specification: one or two digits, a slash, one or
  two digits, a slash and four digits. \<open>dateAt s\<close> is the date at the start of \<open>s\<close>,
  where a run of digits is taken as far as it goes within its bound, and \<open>firstDate\<close> is
  the date at the first place of a text that has one.
\<close>

definition dateAt :: "string \<Rightarrow> string option" where
  "dateAt s =
     (let a = run_len isDigit (Some 2) s;
          s1 = drop a s;
          b = run_len isDigit (Some 2) (drop 1 s1);
          s2 = drop (1 + b) s1;
          c = run_len isDigit (Some 4) (drop 1 s2)
      in if 1 \<le> a \<and> prefix ''/'' s1 \<and> 1 \<le> b \<and> prefix ''/'' s2 \<and> c = 4
         then Some (take (a + 1 + b + 1 + 4) s) else None)"

fun firstDate :: "string \<Rightarrow> string option" where
  "firstDate [] = None"
| "firstDate (c # cs) = (case dateAt (c # cs) of Some d \<Rightarrow> Some d | None \<Rightarrow> firstDate cs)"

text \<open>
  The case id in the words of the specification. A token is a run of lower-case letters,
  digits and hyphens. At a place where the text reads \<open>case\<close> and then white space, the
  token is the one after the white space, or, when that token is \<open>id\<close> and white space
  and another token follow, that other token. The case id of a text is the token at the
  first place that has one.
\<close>

definition isTokenChar :: "char \<Rightarrow> bool" where
  "isTokenChar c \<longleftrightarrow> (97 \<le> code c \<and> code c \<le> 122) \<or> isDigit c \<or> c = CHR ''-''"

definition caseTokenAt :: "string \<Rightarrow> string option" where
  "caseTokenAt s =
     (if prefix ''case'' s \<and> takeWhile isSpace (drop 4 s) \<noteq> []
      then (let a = dropWhile isSpace (drop 4 s);
                b = dropWhile isSpace (drop 2 a)
            in if prefix ''id'' a \<and> takeWhile isSpace (drop 2 a) \<noteq> [] \<and>
                  takeWhile isTokenChar b \<noteq> []
               then Some (takeWhile isTokenChar b)
               else if takeWhile isTokenChar a \<noteq> [] then Some (takeWhile isTokenChar a)
               else None)
      else None)"

fun caseIdSpec :: "string \<Rightarrow> string option" where
  "caseIdSpec [] = None"
| "caseIdSpec (c # cs) =
     (case caseTokenAt (c # cs) of Some tok \<Rightarrow> Some tok | None \<Rightarrow> caseIdSpec cs)"

section \<open>Substrings\<close>

lemma str_includes_sublist: "str_includes t p = sublist p t"
  by (induction t) (auto simp: sublist_Cons_right)

lemma str_includes_part: "sublist q p \<Longrightarrow> str_includes t p \<Longrightarrow> str_includes t q"
  unfolding str_includes_sublist by (rule sublist_order.order_trans)

section \<open>The location cue is a literal substring\<close>

text \<open>
  C8, as the code has it. A text that contains \<open>within\<close> followed by a space contains
  the cue \<open>in\<close> followed by a space, so \<open>containsLocation\<close> holds for it; and the
  classifier answers \<open>location_query\<close> for it exactly when no earlier rule of the
  cascade applies: with a search verb, when no crime type is present; without one, when
  neither a filter verb nor a temporal keyword is present.
\<close>

theorem within_triggers_location:
  assumes "str_includes text ''within ''"
  shows "containsLocation text \<and>
         (determineIntent text = location_query \<longleftrightarrow>
            (if str_includes text ''show'' \<or> str_includes text ''find'' \<or>
                str_includes text ''search'' \<or> str_includes text ''get''
             then \<not> containsCrimeType text
             else \<not> (str_includes text ''filter'' \<or> str_includes text ''narrow'' \<or>
                     str_includes text ''matching'') \<and> \<not> containsTimeReference text))"
proof -
  have "sublist ''in '' ''within ''" by code_simp
  from str_includes_part[OF this assms] have loc: "containsLocation text"
    by (simp add: containsLocation_def)
  then show ?thesis by (simp add: determineIntent_def)
qed

theorem within_triggers_location_witness:
  "str_includes ''cases within downtown'' ''within '' \<and>
   containsLocation ''cases within downtown'' \<and>
   determineIntent ''cases within downtown'' = location_query"
proof -
  have h: "str_includes ''cases within downtown'' ''within ''" by code_simp
  have v: "\<not> (str_includes ''cases within downtown'' ''show'' \<or>
               str_includes ''cases within downtown'' ''find'' \<or>
               str_includes ''cases within downtown'' ''search'' \<or>
               str_includes ''cases within downtown'' ''get'')" by code_simp
  have f: "\<not> (str_includes ''cases within downtown'' ''filter'' \<or>
               str_includes ''cases within downtown'' ''narrow'' \<or>
               str_includes ''cases within downtown'' ''matching'')" by code_simp
  have t: "\<not> containsTimeReference ''cases within downtown''" by code_simp
  from within_triggers_location[OF h] v f t h show ?thesis by simp
qed

text \<open>
  C8 as the specification states it fails: \<open>cases within downtown\<close> has none of the
  other cues, and still it contains a location cue and is classified
  \<open>location_query\<close>.
\<close>

theorem within_not_a_cue_counterexample:
  "\<not> str_includes ''cases within downtown'' ''near '' \<and>
   \<not> str_includes ''cases within downtown'' ''at '' \<and>
   \<not> str_includes ''cases within downtown'' ''around '' \<and>
   \<not> str_includes ''cases within downtown'' ''sector'' \<and>
   \<not> str_includes ''cases within downtown'' ''district'' \<and>
   containsLocation ''cases within downtown'' \<and>
   determineIntent ''cases within downtown'' = location_query"
  by code_simp

section \<open>Group 1 of a match is always defined\<close>

lemma greedy_calls: "greedy p lo hi s k = Some res \<Longrightarrow> \<exists>s'. k s' = Some res"
  by (induction s arbitrary: lo hi) (auto split: if_splits option.splits)

lemma lazy_calls: "lazy p lo hi s k = Some res \<Longrightarrow> \<exists>s'. k s' = Some res"
  by (induction s arbitrary: lo hi) (auto split: if_splits option.splits)

lemma rx_run_group:
  "rx_run ci r s g k = Some res \<Longrightarrow>
   \<exists>s' g'. k s' g' = Some res \<and> ((g \<noteq> None \<or> binds r) \<longrightarrow> g' \<noteq> None)"
proof (induction r arbitrary: s g k res)
  case (Lit l)
  then show ?case by (auto split: option.splits)
next
  case (Rep gr lo hi cl)
  show ?case
  proof (cases gr)
    case True
    with Rep have "greedy (in_class ci cl) lo hi s (\<lambda>s'. k s' g) = Some res" by simp
    from greedy_calls[OF this] show ?thesis unfolding binds.simps by blast
  next
    case False
    with Rep have "lazy (in_class ci cl) lo hi s (\<lambda>s'. k s' g) = Some res" by simp
    from lazy_calls[OF this] show ?thesis unfolding binds.simps by blast
  qed
next
  case (Seq a b)
  from Seq.prems have "rx_run ci a s g (\<lambda>s' g'. rx_run ci b s' g' k) = Some res" by simp
  from Seq.IH(1)[OF this] obtain s1 g1 where
    1: "rx_run ci b s1 g1 k = Some res" and 2: "(g \<noteq> None \<or> binds a) \<longrightarrow> g1 \<noteq> None" by blast
  from Seq.IH(2)[OF 1] obtain s2 g2 where
    3: "k s2 g2 = Some res" and 4: "(g1 \<noteq> None \<or> binds b) \<longrightarrow> g2 \<noteq> None" by blast
  from 2 3 4 show ?case unfolding binds.simps by blast
next
  case (Alt a b)
  show ?case
  proof (cases "rx_run ci a s g k")
    case None
    with Alt.prems have "rx_run ci b s g k = Some res" by simp
    from Alt.IH(2)[OF this] show ?thesis unfolding binds.simps by blast
  next
    case (Some r)
    with Alt.prems have "rx_run ci a s g k = Some res" by simp
    from Alt.IH(1)[OF this] show ?thesis unfolding binds.simps by blast
  qed
next
  case (Opt a)
  show ?case
  proof (cases "rx_run ci a s g k")
    case None
    with Opt.prems have "k s g = Some res" by simp
    then show ?thesis unfolding binds.simps by blast
  next
    case (Some r)
    with Opt.prems have "rx_run ci a s g k = Some res" by simp
    from Opt.IH[OF this] show ?thesis unfolding binds.simps by blast
  qed
next
  case (Grp a)
  from Grp.prems
  have "rx_run ci a s g (\<lambda>s' g'. k s' (Some (take (length s - length s') s))) = Some res"
    by simp
  from Grp.IH[OF this] show ?case unfolding binds.simps by blast
next
  case Eol
  then show ?case by (auto split: if_splits)
qed

lemma str_match_group: "binds r \<Longrightarrow> str_match ci r s = Some g \<Longrightarrow> g \<noteq> None"
proof (induction s)
  case Nil
  then show ?case using rx_run_group[of ci r "[]" None "\<lambda>s' g. Some g" g] by auto
next
  case (Cons c cs)
  show ?case
  proof (cases "rx_run ci r (c # cs) None (\<lambda>s' g. Some g)")
    case None
    with Cons show ?thesis by simp
  next
    case (Some g0)
    with Cons.prems have "g0 = g" by simp
    with Some Cons.prems(1) rx_run_group[of ci r "c # cs" None "\<lambda>s' g. Some g" g] show ?thesis
      by auto
  qed
qed

lemma binds_rx:
  "binds location_rx" "binds sector_rx" "binds district_rx" "binds suspect_rx" "binds caseId_rx"
  "binds date_rx"
  by (simp_all add: location_rx_def sector_rx_def district_rx_def suspect_rx_def caseId_rx_def
        date_rx_def)

lemma str_match_bound: "binds r \<Longrightarrow> str_match ci r s \<noteq> Some None"
  using str_match_group[of r ci s None] by blast

lemma or_else_bound: "a \<noteq> Some None \<Longrightarrow> b \<noteq> Some None \<Longrightarrow> or_else a b \<noteq> Some None"
  by (cases a) (simp_all add: or_else_def)

lemma locationMatch_group: "locationMatch text \<noteq> Some None"
  unfolding locationMatch_def by (intro or_else_bound str_match_bound binds_rx)

lemma suspectMatch_group: "suspectMatch text \<noteq> Some None"
  by (simp add: suspectMatch_def str_match_bound binds_rx)

lemma caseIdMatch_group: "caseIdMatch text \<noteq> Some None"
  by (simp add: caseIdMatch_def str_match_bound binds_rx)

lemma setLocation_eq:
  "setLocation text e = Inr (e\<lparr>location := (case group1 (locationMatch text) of
       None \<Rightarrow> location e | Some g \<Rightarrow> Some (trim g))\<rparr>)"
  using locationMatch_group[of "text"]
  by (auto simp: setLocation_def group1_def split: option.splits)

lemma setSuspect_eq:
  "setSuspect text e = Inr (e\<lparr>suspect := (case group1 (suspectMatch text) of
       None \<Rightarrow> suspect e | Some g \<Rightarrow> Some (trim g))\<rparr>)"
  using suspectMatch_group[of "text"]
  by (auto simp: setSuspect_def group1_def split: option.splits)

lemma setCaseId_eq:
  "setCaseId text e = Inr (e\<lparr>caseId := (case group1 (caseIdMatch text) of
       None \<Rightarrow> caseId e | Some g \<Rightarrow> Some g)\<rparr>)"
  using caseIdMatch_group[of "text"]
  by (auto simp: setCaseId_def group1_def split: option.splits)

lemma extractEntities_eq:
  "extractEntities env text =
     Inr \<lparr>crimeType = nonempty (filter (\<lambda>type. str_includes text type) CRIME_TYPES),
          location = map_option trim (group1 (locationMatch text)),
          timeRange = extractTimeRange env text,
          suspect = map_option trim (group1 (suspectMatch text)),
          caseId = group1 (caseIdMatch text),
          keywords = nonempty (extractKeywords text)\<rparr>"
  by (simp add: extractEntities_def setLocation_eq setSuspect_eq setCaseId_eq no_entities_def
        nonempty_def Let_def split: option.splits)

lemma rne_nonneg: "0 \<le> q \<Longrightarrow> 0 \<le> rne q"
  by (auto simp: rne_def Let_def)

lemma norm53_nonneg: "0 \<le> q \<Longrightarrow> 0 \<le> u \<Longrightarrow> 0 \<le> norm53 n q u"
  by (induction n q u rule: norm53.induct) (auto simp: rne_nonneg)

lemma toDouble_nonneg: "0 \<le> q \<Longrightarrow> 0 \<le> toDouble q"
  by (simp add: toDouble_def norm53_nonneg)

lemma literals_nonneg: "0 \<le> d01" "0 \<le> d02" "0 \<le> d03" "0 \<le> d04"
  by (simp_all add: d01_def d02_def d03_def d04_def toDouble_nonneg)

lemma calculateConfidence_range:
  "0 \<le> calculateConfidence i e t \<and> calculateConfidence i e t \<le> 1"
  by (simp add: calculateConfidence_def Let_def dadd_def dmul_def toDouble_nonneg
        literals_nonneg)

section \<open>The result of the interpreter, field by field\<close>

lemma calculateConfidence_scoreOf:
  "calculateConfidence i e t = scoreOf (i \<noteq> unknown) (keyCount e) (length (split_ws t))"
  by (simp add: calculateConfidence_def scoreOf_def Let_def)

lemma scanKeywords_find:
  "scanKeywords env text tbl =
     map_option (windowOf env) (find (\<lambda>entry. str_includes text (fst entry)) tbl)"
  by (induction env "text" tbl rule: scanKeywords.induct) (simp_all add: windowOf_def Let_def)

lemma parseVoiceCommand_eq:
  "parseVoiceCommand env t =
     (let n = trim (toLowerCase t);
          i = determineIntent n;
          e = \<lparr>crimeType = nonempty (filter (\<lambda>type. str_includes n type) CRIME_TYPES),
               location = map_option trim (group1 (locationMatch n)),
               timeRange = extractTimeRange env n,
               suspect = map_option trim (group1 (suspectMatch n)),
               caseId = group1 (caseIdMatch n),
               keywords = nonempty (extractKeywords n)\<rparr>;
          c = calculateConfidence i e n
      in Inr \<lparr>intent = i, entities = e, confidence = c, rawText = t,
              needsClarification = Some (c < d07),
              clarificationQuestion =
                (if c < d07 then Some (generateClarificationQuestion i e n) else None)\<rparr>)"
  by (simp add: parseVoiceCommand_def extractEntities_eq Let_def)

lemma norm53_step:
  "0 < n \<Longrightarrow> norm53 n q u =
     (if q < 2 ^ 52 then norm53 (n - 1) (2 * q) (u / 2)
      else if 2 ^ 53 \<le> q then norm53 (n - 1) (q / 2) (2 * u)
      else of_int (rne q) * u)"
  by (cases n) simp_all

lemma floor_numeral_div: "\<lfloor>numeral a / numeral b :: rat\<rfloor> = numeral a div numeral b"
  using floor_divide_of_int_eq[of "numeral a" "numeral b", where ?'a = rat] by simp

lemmas dbl = toDouble_def norm53_step rne_def Let_def floor_numeral_div dadd_def dmul_def

lemma literals:
  "d01 = 3602879701896397 / 36028797018963968"
  "d02 = 3602879701896397 / 18014398509481984"
  "d03 = 5404319552844595 / 18014398509481984"
  "d04 = 3602879701896397 / 9007199254740992"
  "d07 = 3152519739159347 / 4503599627370496"
  by (simp_all add: d01_def d02_def d03_def d04_def d07_def dbl)

lemma parse_at:
  assumes "trim (toLowerCase t) = n"
    and "determineIntent n = i"
    and "nonempty (filter (\<lambda>type. str_includes n type) CRIME_TYPES) = ct"
    and "map_option trim (group1 (locationMatch n)) = loc"
    and "extractTimeRange env n = tr"
    and "map_option trim (group1 (suspectMatch n)) = su"
    and "group1 (caseIdMatch n) = cid"
    and "nonempty (extractKeywords n) = kw"
    and "scoreOf (i \<noteq> unknown)
           (keyCount \<lparr>crimeType = ct, location = loc, timeRange = tr, suspect = su,
                      caseId = cid, keywords = kw\<rparr>)
           (length (split_ws n)) = c"
  shows "parseVoiceCommand env t =
     Inr \<lparr>intent = i,
          entities = \<lparr>crimeType = ct, location = loc, timeRange = tr, suspect = su,
                      caseId = cid, keywords = kw\<rparr>,
          confidence = c, rawText = t, needsClarification = Some (c < d07),
          clarificationQuestion =
            (if c < d07
             then Some (generateClarificationQuestion i
                    \<lparr>crimeType = ct, location = loc, timeRange = tr, suspect = su,
                     caseId = cid, keywords = kw\<rparr> n)
             else None)\<rparr>"
  unfolding parseVoiceCommand_eq Let_def calculateConfidence_scoreOf assms by simp

lemma extractTimeRange_at:
  "find (\<lambda>entry. str_includes n (fst entry)) TEMPORAL_KEYWORDS = Some entry \<Longrightarrow>
   extractTimeRange env n = Some (windowOf env entry)"
  "find (\<lambda>entry. str_includes n (fst entry)) TEMPORAL_KEYWORDS = None \<Longrightarrow>
   str_match False date_rx n = None \<Longrightarrow> extractTimeRange env n = None"
  "find (\<lambda>entry. str_includes n (fst entry)) TEMPORAL_KEYWORDS = None \<Longrightarrow>
   str_match False date_rx n = Some m \<Longrightarrow>
   extractTimeRange env n =
     Some \<lparr>tr_start = Some (newDate env m), tr_end = Some (newDate env m), relative = None\<rparr>"
  by (simp_all add: extractTimeRange_def scanKeywords_find Let_def)

section \<open>Confidence and clarification\<close>

text \<open>
  C1. For every host and every input, \<open>parseVoiceCommand\<close> returns a command (it never
  takes the error branch); its confidence lies between 0 and 1, \<open>needsClarification\<close> is
  the truth value of \<open>confidence < 0.7\<close> (\<open>d07\<close> is the double nearest to 0.7), and
  \<open>clarificationQuestion\<close> is defined exactly when that holds.
\<close>

theorem parse_confidence_invariants:
  "\<exists>p. parseVoiceCommand env t = Inr p \<and> 0 \<le> confidence p \<and> confidence p \<le> 1 \<and>
       needsClarification p = Some (confidence p < d07) \<and>
       (clarificationQuestion p \<noteq> None) = (confidence p < d07)"
  by (simp add: parseVoiceCommand_eq Let_def calculateConfidence_range)

theorem parse_confidence_invariants_witness:
  "\<exists>p. parseVoiceCommand symbolic_host ''show me the case from yesterday'' = Inr p \<and>
       0 \<le> confidence p \<and> confidence p \<le> 1 \<and>
       needsClarification p = Some (confidence p < d07) \<and>
       (clarificationQuestion p \<noteq> None) = (confidence p < d07)"
  by (rule parse_confidence_invariants)

section \<open>The empty input\<close>

lemma empty_pieces:
  "trim (toLowerCase '''') = ''''"
  "determineIntent '''' = unknown"
  "nonempty (filter (\<lambda>type. str_includes '''' type) CRIME_TYPES) = None"
  "map_option trim (group1 (locationMatch '''')) = None"
  "map_option trim (group1 (suspectMatch '''')) = None"
  "group1 (caseIdMatch '''') = None"
  "nonempty (extractKeywords '''') = None"
  "find (\<lambda>entry. str_includes '''' (fst entry)) TEMPORAL_KEYWORDS = None"
  "str_match False date_rx '''' = None"
  "length (split_ws '''') = 1"
  by code_simp+

lemma empty_score: "scoreOf False 0 1 = 0"
  unfolding scoreOf_def Let_def literals by (simp add: dbl)

text \<open>
  C7. \<open>parseVoiceCommand\<close> returns a command for every host and every input, and for
  the empty string the command has the intent \<open>unknown\<close>, no entity, confidence 0,
  \<open>needsClarification\<close> true and the question that asks to rephrase.
\<close>

theorem parse_total_and_empty:
  "(\<exists>p. parseVoiceCommand env t = Inr p) \<and>
   parseVoiceCommand env '''' =
     Inr \<lparr>intent = unknown, entities = no_entities, confidence = 0, rawText = '''',
          needsClarification = Some True,
          clarificationQuestion =
            Some ''I didn't quite understand that. Could you please rephrase your query?''\<rparr>"
proof
  show "\<exists>p. parseVoiceCommand env t = Inr p" by (simp add: parseVoiceCommand_eq Let_def)
  have tr: "extractTimeRange env '''' = None"
    by (rule extractTimeRange_at(2)[OF empty_pieces(8) empty_pieces(9)])
  have k: "keyCount \<lparr>crimeType = None, location = None, timeRange = None, suspect = None,
             caseId = None, keywords = None\<rparr> = 0"
    by (simp add: keyCount_def)
  have sc: "scoreOf (unknown \<noteq> unknown)
           (keyCount \<lparr>crimeType = None, location = None, timeRange = None, suspect = None,
                      caseId = None, keywords = None\<rparr>)
           (length (split_ws '''')) = 0"
    unfolding k empty_pieces(10) using empty_score by simp
  show "parseVoiceCommand env '''' =
     Inr \<lparr>intent = unknown, entities = no_entities, confidence = 0, rawText = '''',
          needsClarification = Some True,
          clarificationQuestion =
            Some ''I didn't quite understand that. Could you please rephrase your query?''\<rparr>"
    unfolding parse_at[OF empty_pieces(1-4) tr empty_pieces(5-7) sc]
    by (simp add: literals no_entities_def generateClarificationQuestion_def truthy_def)
qed

theorem parse_total_and_empty_witness:
  "(\<exists>p. parseVoiceCommand symbolic_host ''armed robbery in sector 7'' = Inr p) \<and>
   parseVoiceCommand symbolic_host [] =
     Inr \<lparr>intent = unknown, entities = no_entities, confidence = 0, rawText = [],
          needsClarification = Some True,
          clarificationQuestion =
            Some ''I didn't quite understand that. Could you please rephrase your query?''\<rparr>"
  by (rule parse_total_and_empty)

section \<open>Concrete runs\<close>

lemma keyCount_numeral:
  "keyCount \<lparr>crimeType = None, location = None, timeRange = None, suspect = None,
      caseId = None, keywords = None\<rparr> = 0"
  "keyCount \<lparr>crimeType = None, location = Some l, timeRange = None, suspect = None,
      caseId = None, keywords = None\<rparr> = 1"
  "keyCount \<lparr>crimeType = None, location = None, timeRange = Some r, suspect = None,
      caseId = None, keywords = Some k\<rparr> = 2"
  "keyCount \<lparr>crimeType = Some c, location = None, timeRange = None, suspect = None,
      caseId = None, keywords = Some k\<rparr> = 2"
  "keyCount \<lparr>crimeType = None, location = Some l, timeRange = Some r, suspect = None,
      caseId = None, keywords = Some k\<rparr> = 3"
  "keyCount \<lparr>crimeType = None, location = None, timeRange = Some r, suspect = None,
      caseId = Some i, keywords = Some k\<rparr> = 3"
  by (simp_all add: keyCount_def)

lemma known:
  "(temporal_query \<noteq> unknown) = True" "(location_query \<noteq> unknown) = True"
  "(crime_type_query \<noteq> unknown) = True" "(unknown \<noteq> unknown) = False"
  by simp_all

lemma scores:
  "scoreOf True 1 2 = 1 / 2"
  "scoreOf True 2 5 = 2026619832316723 / 2251799813685248"
  "scoreOf True 2 7 = 2026619832316723 / 2251799813685248"
  "scoreOf True 3 6 = 2026619832316723 / 2251799813685248"
  "scoreOf True 3 8 = 9007199254740991 / 9007199254740992"
  unfolding scoreOf_def Let_def literals by (simp_all add: dbl)

lemma scenario_a_pieces:
  "trim (toLowerCase ''show me all armed robberies this month'') = ''show me all armed robberies this month''"
  "determineIntent ''show me all armed robberies this month'' = temporal_query"
  "nonempty (filter (\<lambda>type. str_includes ''show me all armed robberies this month'' type) CRIME_TYPES) = None"
  "map_option trim (group1 (locationMatch ''show me all armed robberies this month'')) = None"
  "map_option trim (group1 (suspectMatch ''show me all armed robberies this month'')) = None"
  "group1 (caseIdMatch ''show me all armed robberies this month'') = None"
  "nonempty (extractKeywords ''show me all armed robberies this month'') = Some [''armed'', ''robberies'', ''this'', ''month'']"
  "find (\<lambda>entry. str_includes ''show me all armed robberies this month'' (fst entry)) TEMPORAL_KEYWORDS = Some (''this month'', 30, None)"
  "length (split_ws ''show me all armed robberies this month'') = 7"
  by code_simp+

lemma scenario_a_parse:
  "parseVoiceCommand env ''show me all armed robberies this month'' =
     Inr \<lparr>intent = temporal_query,
          entities =
          \<lparr>crimeType = None, location = None,
           timeRange = Some \<lparr>tr_start = Some (minusDays env (now env) 30), tr_end = Some (now env),
             relative = Some ''this month''\<rparr>,
           suspect = None, caseId = None,
           keywords = Some [''armed'', ''robberies'', ''this'', ''month'']\<rparr>,
          confidence = 2026619832316723 / 2251799813685248,
          rawText = ''show me all armed robberies this month'',
          needsClarification = Some False,
          clarificationQuestion =
            None\<rparr>"
proof -
  have tr: "extractTimeRange env ''show me all armed robberies this month'' =
      Some \<lparr>tr_start = Some (minusDays env (now env) 30), tr_end = Some (now env),
             relative = Some ''this month''\<rparr>"
    unfolding extractTimeRange_at(1)[OF scenario_a_pieces(8)] by (simp add: windowOf_def)
  have sc: "scoreOf (temporal_query \<noteq> unknown)
      (keyCount
          \<lparr>crimeType = None, location = None,
           timeRange = Some \<lparr>tr_start = Some (minusDays env (now env) 30), tr_end = Some (now env),
             relative = Some ''this month''\<rparr>,
           suspect = None, caseId = None,
           keywords = Some [''armed'', ''robberies'', ''this'', ''month'']\<rparr>)
      (length (split_ws ''show me all armed robberies this month'')) =
      2026619832316723 / 2251799813685248"
    unfolding keyCount_numeral scenario_a_pieces(9) known by (rule scores(3))
  show ?thesis
    unfolding parse_at[OF scenario_a_pieces(1-4) tr scenario_a_pieces(5-7) sc]
    by (simp add: literals generateClarificationQuestion_def truthy_def)
qed

lemma scenario_b_pieces:
  "trim (toLowerCase ''find cases near sector 9 from last week'') = ''find cases near sector 9 from last week''"
  "determineIntent ''find cases near sector 9 from last week'' = location_query"
  "nonempty (filter (\<lambda>type. str_includes ''find cases near sector 9 from last week'' type) CRIME_TYPES) = None"
  "map_option trim (group1 (locationMatch ''find cases near sector 9 from last week'')) = Some ''sector''"
  "map_option trim (group1 (suspectMatch ''find cases near sector 9 from last week'')) = None"
  "group1 (caseIdMatch ''find cases near sector 9 from last week'') = None"
  "nonempty (extractKeywords ''find cases near sector 9 from last week'') = Some [''cases'', ''near'', ''sector'', ''last'', ''week'']"
  "find (\<lambda>entry. str_includes ''find cases near sector 9 from last week'' (fst entry)) TEMPORAL_KEYWORDS = Some (''last week'', 14, Some 7)"
  "length (split_ws ''find cases near sector 9 from last week'') = 8"
  by code_simp+

lemma scenario_b_parse:
  "parseVoiceCommand env ''find cases near sector 9 from last week'' =
     Inr \<lparr>intent = location_query,
          entities =
          \<lparr>crimeType = None, location = Some ''sector'',
           timeRange = Some \<lparr>tr_start = Some (minusDays env (now env) 14), tr_end = Some (minusDays env (now env) 7),
             relative = Some ''last week''\<rparr>,
           suspect = None, caseId = None,
           keywords = Some [''cases'', ''near'', ''sector'', ''last'', ''week'']\<rparr>,
          confidence = 9007199254740991 / 9007199254740992,
          rawText = ''find cases near sector 9 from last week'',
          needsClarification = Some False,
          clarificationQuestion =
            None\<rparr>"
proof -
  have tr: "extractTimeRange env ''find cases near sector 9 from last week'' =
      Some \<lparr>tr_start = Some (minusDays env (now env) 14), tr_end = Some (minusDays env (now env) 7),
             relative = Some ''last week''\<rparr>"
    unfolding extractTimeRange_at(1)[OF scenario_b_pieces(8)] by (simp add: windowOf_def)
  have sc: "scoreOf (location_query \<noteq> unknown)
      (keyCount
          \<lparr>crimeType = None, location = Some ''sector'',
           timeRange = Some \<lparr>tr_start = Some (minusDays env (now env) 14), tr_end = Some (minusDays env (now env) 7),
             relative = Some ''last week''\<rparr>,
           suspect = None, caseId = None,
           keywords = Some [''cases'', ''near'', ''sector'', ''last'', ''week'']\<rparr>)
      (length (split_ws ''find cases near sector 9 from last week'')) =
      9007199254740991 / 9007199254740992"
    unfolding keyCount_numeral scenario_b_pieces(9) known by (rule scores(5))
  show ?thesis
    unfolding parse_at[OF scenario_b_pieces(1-4) tr scenario_b_pieces(5-7) sc]
    by (simp add: literals generateClarificationQuestion_def truthy_def)
qed

lemma scenario_d_pieces:
  "trim (toLowerCase ''show robbery and burglary cases'') = ''show robbery and burglary cases''"
  "determineIntent ''show robbery and burglary cases'' = crime_type_query"
  "nonempty (filter (\<lambda>type. str_includes ''show robbery and burglary cases'' type) CRIME_TYPES) = Some [''robbery'', ''burglary'']"
  "map_option trim (group1 (locationMatch ''show robbery and burglary cases'')) = None"
  "map_option trim (group1 (suspectMatch ''show robbery and burglary cases'')) = None"
  "group1 (caseIdMatch ''show robbery and burglary cases'') = None"
  "nonempty (extractKeywords ''show robbery and burglary cases'') = Some [''robbery'', ''burglary'', ''cases'']"
  "find (\<lambda>entry. str_includes ''show robbery and burglary cases'' (fst entry)) TEMPORAL_KEYWORDS = None"
  "length (split_ws ''show robbery and burglary cases'') = 5"
  "str_match False date_rx ''show robbery and burglary cases'' = None"
  by code_simp+

lemma scenario_d_parse:
  "parseVoiceCommand env ''show robbery and burglary cases'' =
     Inr \<lparr>intent = crime_type_query,
          entities =
          \<lparr>crimeType = Some [''robbery'', ''burglary''], location = None,
           timeRange = None,
           suspect = None, caseId = None,
           keywords = Some [''robbery'', ''burglary'', ''cases'']\<rparr>,
          confidence = 2026619832316723 / 2251799813685248,
          rawText = ''show robbery and burglary cases'',
          needsClarification = Some False,
          clarificationQuestion =
            None\<rparr>"
proof -
  have tr: "extractTimeRange env ''show robbery and burglary cases'' =
      None"
    by (rule extractTimeRange_at(2)[OF scenario_d_pieces(8) scenario_d_pieces(10)])
  have sc: "scoreOf (crime_type_query \<noteq> unknown)
      (keyCount
          \<lparr>crimeType = Some [''robbery'', ''burglary''], location = None,
           timeRange = None,
           suspect = None, caseId = None,
           keywords = Some [''robbery'', ''burglary'', ''cases'']\<rparr>)
      (length (split_ws ''show robbery and burglary cases'')) =
      2026619832316723 / 2251799813685248"
    unfolding keyCount_numeral scenario_d_pieces(9) known by (rule scores(2))
  show ?thesis
    unfolding parse_at[OF scenario_d_pieces(1-4) tr scenario_d_pieces(5-7) sc]
    by (simp add: literals generateClarificationQuestion_def truthy_def)
qed

lemma blank_location_pieces:
  "trim (toLowerCase ''in   x!'') = ''in   x!''"
  "determineIntent ''in   x!'' = location_query"
  "nonempty (filter (\<lambda>type. str_includes ''in   x!'' type) CRIME_TYPES) = None"
  "map_option trim (group1 (locationMatch ''in   x!'')) = Some ''''"
  "map_option trim (group1 (suspectMatch ''in   x!'')) = None"
  "group1 (caseIdMatch ''in   x!'') = None"
  "nonempty (extractKeywords ''in   x!'') = None"
  "find (\<lambda>entry. str_includes ''in   x!'' (fst entry)) TEMPORAL_KEYWORDS = None"
  "length (split_ws ''in   x!'') = 2"
  "str_match False date_rx ''in   x!'' = None"
  by code_simp+

lemma blank_location_parse:
  "parseVoiceCommand env ''in   x!'' =
     Inr \<lparr>intent = location_query,
          entities =
          \<lparr>crimeType = None, location = Some '''',
           timeRange = None,
           suspect = None, caseId = None,
           keywords = None\<rparr>,
          confidence = 1 / 2,
          rawText = ''in   x!'',
          needsClarification = Some True,
          clarificationQuestion =
            Some ''Could you please specify more details, such as crime type, location, or time period?''\<rparr>"
proof -
  have tr: "extractTimeRange env ''in   x!'' =
      None"
    by (rule extractTimeRange_at(2)[OF blank_location_pieces(8) blank_location_pieces(10)])
  have sc: "scoreOf (location_query \<noteq> unknown)
      (keyCount
          \<lparr>crimeType = None, location = Some '''',
           timeRange = None,
           suspect = None, caseId = None,
           keywords = None\<rparr>)
      (length (split_ws ''in   x!'')) =
      1 / 2"
    unfolding keyCount_numeral blank_location_pieces(9) known by (rule scores(1))
  show ?thesis
    unfolding parse_at[OF blank_location_pieces(1-4) tr blank_location_pieces(5-7) sc]
    by (simp add: literals generateClarificationQuestion_def truthy_def)
qed

section \<open>Scenario A: the plural of a crime type\<close>

text \<open>
  C2, as the code has it. For \<open>show me all armed robberies this month\<close> the text has
  \<open>robberies\<close>, which contains neither \<open>armed robbery\<close> nor \<open>robbery\<close>: no crime
  type is found, the search verb falls through to the temporal keyword, and the result
  is a \<open>temporal_query\<close> without the field \<open>crimeType\<close>. The time range is
  \<open>this month\<close>, the confidence is at least 0.7 and no clarification is asked.
\<close>

theorem scenario_a_result:
  "\<exists>p. parseVoiceCommand env ''show me all armed robberies this month'' = Inr p \<and>
       intent p = temporal_query \<and> crimeType (entities p) = None \<and>
       relativeOf (entities p) = Some ''this month'' \<and>
       d07 \<le> confidence p \<and> needsClarification p = Some False"
  unfolding scenario_a_parse by (simp add: relativeOf_def literals)

theorem scenario_a_result_witness:
  "\<exists>p. parseVoiceCommand symbolic_host ''show me all armed robberies this month'' = Inr p \<and>
       intent p = temporal_query \<and> crimeType (entities p) = None \<and>
       relativeOf (entities p) = Some ''this month'' \<and>
       d07 \<le> confidence p \<and> needsClarification p = Some False"
  by (rule scenario_a_result)

text \<open>
  C2 as the specification states it fails: the intent is not \<open>crime_type_query\<close> and
  there is no list of crime types.
\<close>

theorem scenario_a_crime_type_counterexample:
  "intent (projr (parseVoiceCommand symbolic_host ''show me all armed robberies this month'')) \<noteq>
     crime_type_query \<and>
   crimeType (entities (projr (parseVoiceCommand symbolic_host
     ''show me all armed robberies this month''))) = None"
  unfolding scenario_a_parse by simp

section \<open>Scenario B: a sector after a preposition\<close>

lemma scenario_b_patterns:
  "str_match True location_rx ''find cases near sector 9 from last week'' = Some (Some ''sector'')"
  "str_match True sector_rx ''find cases near sector 9 from last week'' = Some (Some ''9'')"
  by code_simp+

text \<open>
  C3, as the code has it. For \<open>find cases near sector 9 from last week\<close> the intent is
  \<open>location_query\<close> and the time range is \<open>last week\<close>, but the location is the word
  \<open>sector\<close>: the preposition pattern is tried first and matches \<open>near sector\<close>, so the
  sector pattern, which alone captures \<open>9\<close>, is never consulted.
\<close>

theorem scenario_b_result:
  "\<exists>p. parseVoiceCommand env ''find cases near sector 9 from last week'' = Inr p \<and>
       intent p = location_query \<and> location (entities p) = Some ''sector'' \<and>
       relativeOf (entities p) = Some ''last week'' \<and>
       str_match True location_rx ''find cases near sector 9 from last week'' =
         Some (Some ''sector'') \<and>
       str_match True sector_rx ''find cases near sector 9 from last week'' = Some (Some ''9'')"
  unfolding scenario_b_parse scenario_b_patterns by (simp add: relativeOf_def)

theorem scenario_b_result_witness:
  "\<exists>p. parseVoiceCommand symbolic_host ''find cases near sector 9 from last week'' = Inr p \<and>
       intent p = location_query \<and> location (entities p) = Some ''sector'' \<and>
       relativeOf (entities p) = Some ''last week'' \<and>
       str_match True location_rx ''find cases near sector 9 from last week'' =
         Some (Some ''sector'') \<and>
       str_match True sector_rx ''find cases near sector 9 from last week'' = Some (Some ''9'')"
  by (rule scenario_b_result)

text \<open>
  C3 as the specification states it fails: the location is not \<open>9\<close>.
\<close>

theorem scenario_b_location_counterexample:
  "location (entities (projr (parseVoiceCommand symbolic_host
     ''find cases near sector 9 from last week''))) = Some ''sector'' \<and>
   location (entities (projr (parseVoiceCommand symbolic_host
     ''find cases near sector 9 from last week''))) \<noteq> Some ''9''"
  unfolding scenario_b_parse by simp

section \<open>Scenario D: two crime types\<close>

lemma scenario_d_question:
  "generateClarificationQuestion crime_type_query
     \<lparr>crimeType = Some [''robbery'', ''burglary''], location = None, timeRange = None,
      suspect = None, caseId = None, keywords = Some [''robbery'', ''burglary'', ''cases'']\<rparr>
     ''show robbery and burglary cases'' =
   ''I detected multiple crime types: robbery, burglary. Which one would you like to search for?''"
  by (simp add: generateClarificationQuestion_def truthy_def)

text \<open>
  C6, as the code has it. For \<open>show robbery and burglary cases\<close> the crime types are
  \<open>robbery\<close> and \<open>burglary\<close> in vocabulary order; the confidence is at least 0.7, so
  \<open>needsClarification\<close> is false and no question is stored. The question about multiple
  crime types, listing the two joined by a comma and a space, is what
  \<open>generateClarificationQuestion\<close> returns for this intent and these entities.
\<close>

theorem scenario_d_result:
  "\<exists>p. parseVoiceCommand env ''show robbery and burglary cases'' = Inr p \<and>
       crimeType (entities p) = Some [''robbery'', ''burglary''] \<and>
       d07 \<le> confidence p \<and> needsClarification p = Some False \<and>
       clarificationQuestion p = None \<and>
       generateClarificationQuestion (intent p) (entities p) ''show robbery and burglary cases'' =
         ''I detected multiple crime types: robbery, burglary. Which one would you like to search for?''"
  unfolding scenario_d_parse by (simp add: literals scenario_d_question)

theorem scenario_d_result_witness:
  "\<exists>p. parseVoiceCommand symbolic_host ''show robbery and burglary cases'' = Inr p \<and>
       crimeType (entities p) = Some [''robbery'', ''burglary''] \<and>
       d07 \<le> confidence p \<and> needsClarification p = Some False \<and>
       clarificationQuestion p = None \<and>
       generateClarificationQuestion (intent p) (entities p) ''show robbery and burglary cases'' =
         ''I detected multiple crime types: robbery, burglary. Which one would you like to search for?''"
  by (rule scenario_d_result)

text \<open>
  C6 as the specification states it fails: no clarification fires for this input.
\<close>

theorem scenario_d_clarification_counterexample:
  "needsClarification (projr (parseVoiceCommand symbolic_host ''show robbery and burglary cases'')) =
     Some False \<and>
   clarificationQuestion (projr (parseVoiceCommand symbolic_host ''show robbery and burglary cases'')) =
     None"
  unfolding scenario_d_parse by simp

section \<open>Crime types\<close>

lemma vocabulary_parts:
  "sublist ''robbery'' ''armed robbery''"
  "length CRIME_TYPES = 13"
  by code_simp+

text \<open>
  C4. For every input the field \<open>crimeType\<close> is the list of the phrases of the
  vocabulary of 13 that occur in the normalized text, in the order of the vocabulary,
  and the field is absent when that list is empty. Nothing is removed from the list: a
  text that contains \<open>armed robbery\<close> yields \<open>armed robbery\<close> and then \<open>robbery\<close> as
  its first two entries.
\<close>

theorem crimeType_is_vocabulary_filter:
  "\<exists>p. parseVoiceCommand env t = Inr p \<and>
       crimeType (entities p) =
         nonempty (filter (\<lambda>type. str_includes (trim (toLowerCase t)) type) CRIME_TYPES) \<and>
       length CRIME_TYPES = 13 \<and>
       (str_includes (trim (toLowerCase t)) ''armed robbery'' \<longrightarrow>
          (\<exists>others. crimeType (entities p) = Some (''armed robbery'' # ''robbery'' # others)))"
proof -
  have "\<exists>others. nonempty (filter (\<lambda>type. str_includes n type) CRIME_TYPES) =
          Some (''armed robbery'' # ''robbery'' # others)"
    if a: "str_includes n ''armed robbery''" for n
  proof -
    from str_includes_part[OF vocabulary_parts(1) a] have r: "str_includes n ''robbery''" .
    show ?thesis by (simp add: CRIME_TYPES_def nonempty_def a r)
  qed
  then show ?thesis
    by (simp add: parseVoiceCommand_eq Let_def vocabulary_parts(2))
qed

lemma armed_robbery_pieces:
  "str_includes (trim (toLowerCase ''Armed robbery at the bank'')) ''armed robbery''"
  "filter (\<lambda>type. str_includes (trim (toLowerCase ''Armed robbery at the bank'')) type) CRIME_TYPES
     = [''armed robbery'', ''robbery'']"
  by code_simp+

theorem crimeType_is_vocabulary_filter_witness:
  "str_includes (trim (toLowerCase ''Armed robbery at the bank'')) ''armed robbery'' \<and>
   (\<exists>p. parseVoiceCommand symbolic_host ''Armed robbery at the bank'' = Inr p \<and>
        crimeType (entities p) = Some [''armed robbery'', ''robbery''])"
proof -
  note h = armed_robbery_pieces(1)
  from crimeType_is_vocabulary_filter[of symbolic_host "''Armed robbery at the bank''"]
  obtain p where p: "parseVoiceCommand symbolic_host ''Armed robbery at the bank'' = Inr p"
    and c: "crimeType (entities p) =
      nonempty (filter (\<lambda>type. str_includes (trim (toLowerCase ''Armed robbery at the bank'')) type)
        CRIME_TYPES)"
    by blast
  from c have "crimeType (entities p) = Some [''armed robbery'', ''robbery'']"
    unfolding armed_robbery_pieces(2) by (simp add: nonempty_def)
  with h p show ?thesis by blast
qed

section \<open>The summary\<close>

lemma shown_truthy: "shown label v = (if truthy v then [label @ the v] else [])"
  by (cases v) (simp_all add: shown_def truthy_def)

lemma crime_shown:
  "(case c of None \<Rightarrow> [] | Some ts \<Rightarrow> if ts = [] then [] else [f ts]) =
   (if (case c of None \<Rightarrow> False | Some ts \<Rightarrow> 0 < length ts) then [f (the c)] else [])"
  by (cases c) simp_all

lemma push_if: "(if b then xs @ [y] else xs) = xs @ (if b then [y] else [])"
  by simp

lemma if_nonempty: "(if 0 < length ps then a else b) = (if ps = [] then b else a)"
  by simp

lemma formatCommandSummary_parts:
  "formatCommandSummary parsed =
     (if summaryParts (entities parsed) = [] then ''General search''
      else join '' | '' (summaryParts (entities parsed)))"
  unfolding formatCommandSummary_def summaryParts_def Let_def shown_truthy crime_shown push_if
    if_nonempty
  by (simp only: append_Nil append_assoc)

lemma shown_present: "v \<noteq> Some [] \<Longrightarrow> shown label v = present label v"
  by (cases v) (simp_all add: shown_def present_def)

lemma summaryParts_present:
  assumes "validEntities e"
  shows "summaryParts e = presentParts e"
proof -
  have c: "(case crimeType e of None \<Rightarrow> []
            | Some ts \<Rightarrow> if ts = [] then [] else [''Crime: '' @ join '', '' ts]) =
           (case crimeType e of None \<Rightarrow> [] | Some ts \<Rightarrow> [''Crime: '' @ join '', '' ts])"
    using assms by (cases "crimeType e") (simp_all add: validEntities_def)
  have l: "shown ''Location: '' (location e) = present ''Location: '' (location e)"
    using assms by (simp add: validEntities_def shown_present)
  have t: "shown ''Time: '' (relativeOf e) = present ''Time: '' (relativeOf e)"
    using assms by (simp add: validEntities_def shown_present)
  have s: "shown ''Suspect: '' (suspect e) = present ''Suspect: '' (suspect e)"
    using assms by (simp add: validEntities_def shown_present)
  have i: "shown ''Case ID: '' (caseId e) = present ''Case ID: '' (caseId e)"
    using assms by (simp add: validEntities_def shown_present)
  show ?thesis unfolding summaryParts_def presentParts_def c l t s i ..
qed

lemma presentParts_none:
  assumes "crimeType e = None" and "location e = None" and "relativeOf e = None"
    and "suspect e = None" and "caseId e = None"
  shows "presentParts e = []"
  using assms by (simp add: presentParts_def present_def)

text \<open>
  C9. \<open>formatCommandSummary\<close> has no failing step: it returns a string for every
  command. For a valid command, one whose entities have no empty field, the result is
  the labelled fields that are present, joined by a bar between spaces, in the order
  crime types, location, relative label of the time range, suspect, case id; a field
  that is absent gives no part. The result is \<open>General search\<close> when none of the five
  fields is present, whatever the keywords.
\<close>

theorem formatCommandSummary_present_fields:
  assumes "validEntities (entities parsed)"
  shows "formatCommandSummary parsed =
           (if presentParts (entities parsed) = [] then ''General search''
            else join '' | '' (presentParts (entities parsed))) \<and>
         (crimeType (entities parsed) = None \<and> location (entities parsed) = None \<and>
          relativeOf (entities parsed) = None \<and> suspect (entities parsed) = None \<and>
          caseId (entities parsed) = None \<longrightarrow>
            formatCommandSummary parsed = ''General search'')"
  unfolding formatCommandSummary_parts summaryParts_present[OF assms]
  by (simp add: presentParts_none)

theorem formatCommandSummary_present_fields_witness:
  "validEntities (entities
     \<lparr>intent = temporal_query,
      entities = \<lparr>crimeType = Some [''robbery'', ''theft''], location = Some ''sector'',
                  timeRange = Some \<lparr>tr_start = Some Now, tr_end = Some Now,
                                    relative = Some ''today''\<rparr>,
                  suspect = None, caseId = Some ''a-1'', keywords = None\<rparr>,
      confidence = 1, rawText = [], needsClarification = Some False,
      clarificationQuestion = None\<rparr>) \<and>
   formatCommandSummary
     \<lparr>intent = temporal_query,
      entities = \<lparr>crimeType = Some [''robbery'', ''theft''], location = Some ''sector'',
                  timeRange = Some \<lparr>tr_start = Some Now, tr_end = Some Now,
                                    relative = Some ''today''\<rparr>,
                  suspect = None, caseId = Some ''a-1'', keywords = None\<rparr>,
      confidence = 1, rawText = [], needsClarification = Some False,
      clarificationQuestion = None\<rparr> =
     ''Crime: robbery, theft | Location: sector | Time: today | Case ID: a-1'' \<and>
   validEntities (entities
     \<lparr>intent = search_cases,
      entities = \<lparr>crimeType = None, location = None, timeRange = (None :: stamp TimeRange option),
                  suspect = None, caseId = None, keywords = Some [''vehicles'']\<rparr>,
      confidence = 1 / 2, rawText = ''show vehicles'', needsClarification = Some True,
      clarificationQuestion = None\<rparr>) \<and>
   formatCommandSummary
     \<lparr>intent = search_cases,
      entities = \<lparr>crimeType = None, location = None, timeRange = (None :: stamp TimeRange option),
                  suspect = None, caseId = None, keywords = Some [''vehicles'']\<rparr>,
      confidence = 1 / 2, rawText = ''show vehicles'', needsClarification = Some True,
      clarificationQuestion = None\<rparr> = ''General search''"
proof -
  let ?p = "\<lparr>intent = temporal_query,
      entities = \<lparr>crimeType = Some [''robbery'', ''theft''], location = Some ''sector'',
                  timeRange = Some \<lparr>tr_start = Some Now, tr_end = Some Now,
                                    relative = Some ''today''\<rparr>,
                  suspect = None, caseId = Some ''a-1'', keywords = None\<rparr>,
      confidence = 1, rawText = [], needsClarification = Some False,
      clarificationQuestion = None\<rparr>"
  let ?q = "\<lparr>intent = search_cases,
      entities = \<lparr>crimeType = None, location = None, timeRange = (None :: stamp TimeRange option),
                  suspect = None, caseId = None, keywords = Some [''vehicles'']\<rparr>,
      confidence = 1 / 2, rawText = ''show vehicles'', needsClarification = Some True,
      clarificationQuestion = None\<rparr>"
  have vp: "validEntities (entities ?p)"
    by (simp add: validEntities_def relativeOf_def)
  have vq: "validEntities (entities ?q)"
    by (simp add: validEntities_def relativeOf_def)
  have a: "formatCommandSummary ?p =
      ''Crime: robbery, theft | Location: sector | Time: today | Case ID: a-1''"
    using formatCommandSummary_present_fields[OF vp]
    by (simp add: presentParts_def present_def relativeOf_def)
  have b: "formatCommandSummary ?q = ''General search''"
    using formatCommandSummary_present_fields[OF vq]
    by (simp add: presentParts_def present_def relativeOf_def)
  from vp a vq b show ?thesis by simp
qed

text \<open>
  The condition on the entities is not met by every result of the interpreter: the
  command parsed from \<open>in\<close>, three spaces, \<open>x!\<close> holds the empty string as its location,
  because \<open>extractEntities\<close> stores the trimmed capture of the location pattern without
  the test for emptiness that it makes for the crime types and the keywords. The summary
  passes over that field.
\<close>

lemma blank_location_summary:
  "location (entities (projr (parseVoiceCommand symbolic_host ''in   x!''))) = Some [] \<and>
   \<not> validEntities (entities (projr (parseVoiceCommand symbolic_host ''in   x!''))) \<and>
   formatCommandSummary (projr (parseVoiceCommand symbolic_host ''in   x!'')) =
     ''General search''"
  unfolding blank_location_parse
  by (simp add: formatCommandSummary_def truthy_def relativeOf_def validEntities_def)

section \<open>Greedy runs\<close>

lemma run_len_Nil: "run_len p hi [] = 0"
  by (simp add: run_len_def split: option.splits)

lemma run_len_Cons:
  "run_len p hi (c # cs) = (if p c \<and> hi \<noteq> Some 0 then Suc (run_len p (dec hi) cs) else 0)"
proof (cases hi)
  case None
  then show ?thesis by (simp add: run_len_def)
next
  case (Some h)
  then show ?thesis by (cases h) (simp_all add: run_len_def)
qed

lemma greedy_hit:
  "lo \<le> run_len p hi s \<Longrightarrow> k (drop (run_len p hi s) s) = Some r \<Longrightarrow>
   greedy p lo hi s k = Some r"
proof (induction s arbitrary: lo hi)
  case Nil
  then show ?case by (simp add: run_len_Nil)
next
  case (Cons c cs)
  show ?case
  proof (cases "p c \<and> hi \<noteq> Some 0")
    case True
    with Cons.prems have "lo - 1 \<le> run_len p (dec hi) cs"
      and "k (drop (run_len p (dec hi) cs) cs) = Some r"
      by (simp_all add: run_len_Cons)
    from Cons.IH[OF this] True show ?thesis by simp
  next
    case False
    with Cons.prems show ?thesis by (auto simp: run_len_Cons)
  qed
qed

lemma greedy_short: "run_len p hi s < lo \<Longrightarrow> greedy p lo hi s k = None"
proof (induction s arbitrary: lo hi)
  case Nil
  then show ?case by (simp add: run_len_Nil)
next
  case (Cons c cs)
  show ?case
  proof (cases "p c \<and> hi \<noteq> Some 0")
    case True
    with Cons.prems have "run_len p (dec hi) cs < lo - 1" by (simp add: run_len_Cons)
    from Cons.IH[OF this] True Cons.prems show ?thesis by (simp add: run_len_Cons)
  next
    case False
    with Cons.prems show ?thesis by (auto simp: run_len_Cons)
  qed
qed

lemma greedy_miss:
  "(\<And>j. lo \<le> j \<Longrightarrow> j \<le> run_len p hi s \<Longrightarrow> k (drop j s) = None) \<Longrightarrow>
   greedy p lo hi s k = None"
proof (induction s arbitrary: lo hi)
  case Nil
  then show ?case using Nil[of 0] by (simp add: run_len_Nil)
next
  case (Cons c cs)
  show ?case
  proof (cases "p c \<and> hi \<noteq> Some 0")
    case True
    have "k (drop j cs) = None" if "lo - 1 \<le> j" "j \<le> run_len p (dec hi) cs" for j
      using Cons.prems[of "Suc j"] that True by (simp add: run_len_Cons)
    from Cons.IH[OF this] have inner: "greedy p (lo - 1) (dec hi) cs k = None" .
    have "k (c # cs) = None" if "lo = 0" using Cons.prems[of 0] that by simp
    with inner True show ?thesis by simp
  next
    case False
    have "k (c # cs) = None" if "lo = 0" using Cons.prems[of 0] that by simp
    with False show ?thesis by auto
  qed
qed

lemma run_len_unbounded: "run_len p None s = length (takeWhile p s)"
  by (simp add: run_len_def)

lemma drop_run: "drop (length (takeWhile p s)) s = dropWhile p s"
  by (induction s) simp_all

lemma take_run: "take (length (takeWhile p s)) s = takeWhile p s"
  by (induction s) simp_all

lemma inside_run:
  "j < length (takeWhile p s) \<Longrightarrow> \<exists>c cs. drop j s = c # cs \<and> p c"
proof (induction s arbitrary: j)
  case Nil
  then show ?case by simp
next
  case (Cons a s)
  then show ?case by (cases j) (auto split: if_splits)
qed

text \<open>A greedy run whose continuation refuses every string that starts inside the run.\<close>

lemma greedy_run:
  assumes "\<And>c cs. p c \<Longrightarrow> k (c # cs) = None"
  shows "greedy p lo None s k =
           (if lo \<le> length (takeWhile p s) then k (dropWhile p s) else None)"
proof (cases "lo \<le> length (takeWhile p s)")
  case False
  then show ?thesis using greedy_short[of p None s lo k] by (simp add: run_len_unbounded)
next
  case True
  show ?thesis
  proof (cases "k (dropWhile p s)")
    case (Some r)
    with True greedy_hit[of lo p None s k r] show ?thesis
      by (simp add: run_len_unbounded drop_run)
  next
    case None
    have "k (drop j s) = None" if "j \<le> length (takeWhile p s)" for j
    proof (cases "j = length (takeWhile p s)")
      case True
      with None show ?thesis by (simp add: drop_run)
    next
      case False
      with that have "j < length (takeWhile p s)" by simp
      from inside_run[OF this] assms show ?thesis by auto
    qed
    then have "greedy p lo None s k = None"
      by (intro greedy_miss) (simp add: run_len_unbounded)
    with True None show ?thesis by simp
  qed
qed

section \<open>Case folding is void on a lowered text\<close>

lemma greedy_cong_suffix:
  "(\<And>c. c \<in> set s \<Longrightarrow> p c = q c) \<Longrightarrow> (\<And>s'. suffix s' s \<Longrightarrow> k s' = k' s') \<Longrightarrow>
   greedy p lo hi s k = greedy q lo hi s k'"
proof (induction s arbitrary: lo hi)
  case Nil
  then show ?case by simp
next
  case (Cons c cs)
  have a: "greedy p (lo - 1) (dec hi) cs k = greedy q (lo - 1) (dec hi) cs k'"
  proof (rule Cons.IH)
    show "p c' = q c'" if "c' \<in> set cs" for c' using Cons.prems(1)[of c'] that by simp
    show "k s' = k' s'" if "suffix s' cs" for s' using Cons.prems(2) that by (simp add: suffix_ConsI)
  qed
  have b: "p c = q c" by (rule Cons.prems) simp
  have c: "k (c # cs) = k' (c # cs)" by (rule Cons.prems) simp
  show ?case unfolding greedy.simps a b c ..
qed

lemma lazy_cong_suffix:
  "(\<And>c. c \<in> set s \<Longrightarrow> p c = q c) \<Longrightarrow> (\<And>s'. suffix s' s \<Longrightarrow> k s' = k' s') \<Longrightarrow>
   lazy p lo hi s k = lazy q lo hi s k'"
proof (induction s arbitrary: lo hi)
  case Nil
  then show ?case by simp
next
  case (Cons c cs)
  have a: "lazy p (lo - 1) (dec hi) cs k = lazy q (lo - 1) (dec hi) cs k'"
  proof (rule Cons.IH)
    show "p c' = q c'" if "c' \<in> set cs" for c' using Cons.prems(1)[of c'] that by simp
    show "k s' = k' s'" if "suffix s' cs" for s' using Cons.prems(2) that by (simp add: suffix_ConsI)
  qed
  have b: "p c = q c" by (rule Cons.prems) simp
  have c: "k (c # cs) = k' (c # cs)" by (rule Cons.prems) simp
  show ?case unfolding lazy.simps a b c ..
qed

lemma strip_lit_exact:
  "strip_lit False l s = (if prefix l s then Some (drop (length l) s) else None)"
proof (induction l arbitrary: s)
  case Nil
  then show ?case by simp
next
  case (Cons a l)
  then show ?case by (cases s) (simp_all add: fold_case_def)
qed

lemma strip_lit_lowered:
  "(\<And>c. c \<in> set s \<Longrightarrow> \<not> isUpper c) \<Longrightarrow> strip_lit True l s = strip_lit False l s"
proof (induction l arbitrary: s)
  case Nil
  then show ?case by simp
next
  case (Cons a l)
  show ?case
  proof (cases s)
    case Nil
    then show ?thesis by simp
  next
    case (Cons c cs)
    with Cons.prems have "\<not> isUpper c" and "\<And>c. c \<in> set cs \<Longrightarrow> \<not> isUpper c" by simp_all
    with Cons.IH[of cs] Cons show ?thesis by (simp add: fold_case_def)
  qed
qed

lemma strip_lit_suffix: "strip_lit ci l s = Some s' \<Longrightarrow> suffix s' s"
  by (induction ci l s rule: strip_lit.induct) (auto split: if_splits intro: suffix_ConsI)

lemma rx_run_lowered:
  "(\<And>c. c \<in> set s \<Longrightarrow> \<not> isUpper c) \<Longrightarrow>
   (\<And>s' g'. suffix s' s \<Longrightarrow> k s' g' = k' s' g') \<Longrightarrow>
   rx_run True r s g k = rx_run False r s g k'"
proof (induction r arbitrary: s g k k')
  case (Lit l)
  show ?case
  proof (cases "strip_lit False l s")
    case None
    with Lit.prems(1) show ?thesis by (simp add: strip_lit_lowered)
  next
    case (Some s')
    from strip_lit_suffix[OF Some] Lit.prems(2) have "k s' g = k' s' g" by simp
    with Some Lit.prems(1) show ?thesis by (simp add: strip_lit_lowered)
  qed
next
  case (Rep gr lo hi cl)
  have cls: "in_class True cl c = in_class False cl c" if "c \<in> set s" for c
    using Rep.prems(1)[OF that] by (simp add: in_class_def fold_case_def)
  have "greedy (in_class True cl) lo hi s (\<lambda>s'. k s' g) =
        greedy (in_class False cl) lo hi s (\<lambda>s'. k' s' g)"
    by (rule greedy_cong_suffix) (auto simp: cls Rep.prems(2))
  moreover have "lazy (in_class True cl) lo hi s (\<lambda>s'. k s' g) =
        lazy (in_class False cl) lo hi s (\<lambda>s'. k' s' g)"
    by (rule lazy_cong_suffix) (auto simp: cls Rep.prems(2))
  ultimately show ?case by simp
next
  case (Seq a b)
  have "rx_run True a s g (\<lambda>s' g'. rx_run True b s' g' k) =
        rx_run False a s g (\<lambda>s' g'. rx_run False b s' g' k')"
  proof (rule Seq.IH(1))
    show "\<not> isUpper c" if "c \<in> set s" for c by (rule Seq.prems(1)[OF that])
    show "rx_run True b s' g' k = rx_run False b s' g' k'" if "suffix s' s" for s' g'
    proof (rule Seq.IH(2))
      show "\<not> isUpper c" if "c \<in> set s'" for c
        using that \<open>suffix s' s\<close> Seq.prems(1) set_mono_suffix by blast
      show "k s'' g'' = k' s'' g''" if "suffix s'' s'" for s'' g''
        using that \<open>suffix s' s\<close> Seq.prems(2) suffix_order.order_trans by blast
    qed
  qed
  then show ?case by simp
next
  case (Alt a b)
  have a: "rx_run True a s g k = rx_run False a s g k'"
    by (rule Alt.IH(1)[OF Alt.prems(1) Alt.prems(2)])
  have b: "rx_run True b s g k = rx_run False b s g k'"
    by (rule Alt.IH(2)[OF Alt.prems(1) Alt.prems(2)])
  show ?case unfolding rx_run.simps a b ..
next
  case (Opt a)
  have a: "rx_run True a s g k = rx_run False a s g k'"
    by (rule Opt.IH[OF Opt.prems(1) Opt.prems(2)])
  have b: "k s g = k' s g" by (rule Opt.prems(2)) simp
  show ?case unfolding rx_run.simps a b ..
next
  case (Grp a)
  have "rx_run True a s g (\<lambda>s' g'. k s' (Some (take (length s - length s') s))) =
        rx_run False a s g (\<lambda>s' g'. k' s' (Some (take (length s - length s') s)))"
    by (rule Grp.IH) (auto simp: Grp.prems)
  then show ?case by simp
next
  case Eol
  have a: "k s g = k' s g" by (rule Eol.prems(2)) simp
  show ?case unfolding rx_run.simps a ..
qed

lemma str_match_lowered:
  "(\<And>c. c \<in> set s \<Longrightarrow> \<not> isUpper c) \<Longrightarrow> str_match True r s = str_match False r s"
proof (induction s)
  case Nil
  then show ?case using rx_run_lowered[of "[]" "\<lambda>s' g. Some g" "\<lambda>s' g. Some g" r None] by simp
next
  case (Cons c cs)
  have a: "rx_run True r (c # cs) None (\<lambda>s' g. Some g) =
      rx_run False r (c # cs) None (\<lambda>s' g. Some g)"
    by (rule rx_run_lowered) (auto simp: Cons.prems)
  have b: "str_match True r cs = str_match False r cs"
    by (rule Cons.IH) (simp add: Cons.prems)
  show ?case unfolding str_match.simps a b ..
qed

lemma code_char_of: "n < 256 \<Longrightarrow> code (char_of n) = n"
  by (simp add: code_def)

lemma lowerChar_lower: "\<not> isUpper (lowerChar c)"
proof -
  have "code c < 256" by (simp add: code_def)
  then show ?thesis
    by (auto simp: lowerChar_def isUpper_def code_char_of)
qed

lemma normalized_lower: "c \<in> set (trim (toLowerCase t)) \<Longrightarrow> \<not> isUpper c"
proof -
  assume "c \<in> set (trim (toLowerCase t))"
  then have "c \<in> set (dropWhile isSpace (rev (dropWhile isSpace (toLowerCase t))))"
    by (simp add: trim_def)
  then have "c \<in> set (rev (dropWhile isSpace (toLowerCase t)))"
    by (rule set_dropWhileD)
  then have "c \<in> set (dropWhile isSpace (toLowerCase t))" by simp
  then have "c \<in> set (toLowerCase t)" by (rule set_dropWhileD)
  then show ?thesis by (auto simp: toLowerCase_def lowerChar_lower)
qed

section \<open>The case id\<close>

lemma cls_space: "in_class False [Space] = isSpace"
  by (rule ext) (simp add: in_class_def fold_case_def)

lemma cls_token:
  "in_class False [Range CHR ''a'' CHR ''z'', Range CHR ''0'' CHR ''9'', Ch CHR ''-''] =
   isTokenChar"
  by (rule ext) (auto simp: in_class_def fold_case_def isTokenChar_def isDigit_def code_def)

lemma space_start:
  assumes "isSpace c"
  shows "prefix ''id'' (c # cs) = False" and "takeWhile isTokenChar (c # cs) = []"
  using assms by (auto simp: isSpace_def isTokenChar_def isDigit_def code_def)

lemma grp_token:
  "rx_run False
     (Grp (Rep True 1 None [Range CHR ''a'' CHR ''z'', Range CHR ''0'' CHR ''9'', Ch CHR ''-'']))
     s g (\<lambda>s' g'. Some g') =
   (if takeWhile isTokenChar s = [] then None else Some (Some (takeWhile isTokenChar s)))"
proof (cases "takeWhile isTokenChar s = []")
  case True
  then have "run_len isTokenChar None s < 1" by (simp add: run_len_unbounded)
  from greedy_short[OF this] True show ?thesis by (simp add: cls_token)
next
  case False
  let ?m = "run_len isTokenChar None s"
  let ?k = "\<lambda>s'. Some (Some (take (length s - length s') s))"
  from False have lo: "1 \<le> ?m" by (simp add: run_len_unbounded Suc_le_eq)
  have "?m \<le> length s" by (simp add: run_len_unbounded length_takeWhile_le)
  then have "?k (drop ?m s) = Some (Some (takeWhile isTokenChar s))"
    by (simp add: run_len_unbounded take_run)
  from greedy_hit[of 1 isTokenChar None s ?k "Some (takeWhile isTokenChar s)", OF lo this] False
  show ?thesis by (simp add: cls_token)
qed

lemma id_part:
  "rx_run False (Seq (Lit ''id'') (Rep True 1 None [Space])) s g
     (\<lambda>s' g'. rx_run False
        (Grp (Rep True 1 None [Range CHR ''a'' CHR ''z'', Range CHR ''0'' CHR ''9'', Ch CHR ''-'']))
        s' g' (\<lambda>s' g'. Some g')) =
   (if prefix ''id'' s \<and> takeWhile isSpace (drop 2 s) \<noteq> [] \<and>
       takeWhile isTokenChar (dropWhile isSpace (drop 2 s)) \<noteq> []
    then Some (Some (takeWhile isTokenChar (dropWhile isSpace (drop 2 s))))
    else None)"
proof -
  let ?k = "\<lambda>s'. if takeWhile isTokenChar s' = [] then None
                 else Some (Some (takeWhile isTokenChar s'))"
  have refuse: "?k (c # cs) = None" if "isSpace c" for c cs
    unfolding space_start[OF that] by simp
  have run: "greedy isSpace 1 None t ?k =
      (if 1 \<le> length (takeWhile isSpace t) then ?k (dropWhile isSpace t) else None)" for t
    by (rule greedy_run) (rule refuse)
  show ?thesis
    unfolding rx_run.simps(1,2,3) grp_token cls_space strip_lit_exact run
    by (simp add: numeral_2_eq_2 Suc_le_eq)
qed

lemma token_after_spaces:
  "rx_run False
     (Seq (Opt (Seq (Lit ''id'') (Rep True 1 None [Space])))
        (Grp (Rep True 1 None [Range CHR ''a'' CHR ''z'', Range CHR ''0'' CHR ''9'', Ch CHR ''-''])))
     s g (\<lambda>s' g'. Some g') =
   (if prefix ''id'' s \<and> takeWhile isSpace (drop 2 s) \<noteq> [] \<and>
       takeWhile isTokenChar (dropWhile isSpace (drop 2 s)) \<noteq> []
    then Some (Some (takeWhile isTokenChar (dropWhile isSpace (drop 2 s))))
    else if takeWhile isTokenChar s \<noteq> [] then Some (Some (takeWhile isTokenChar s))
    else None)"
  unfolding rx_run.simps(3)[of _ "Opt _"] rx_run.simps(5) id_part
  unfolding grp_token by simp

lemma caseId_at:
  "rx_run False caseId_rx s None (\<lambda>s' g'. Some g') = map_option Some (caseTokenAt s)"
proof -
  let ?k = "\<lambda>s. if prefix ''id'' s \<and> takeWhile isSpace (drop 2 s) \<noteq> [] \<and>
       takeWhile isTokenChar (dropWhile isSpace (drop 2 s)) \<noteq> []
    then Some (Some (takeWhile isTokenChar (dropWhile isSpace (drop 2 s))))
    else if takeWhile isTokenChar s \<noteq> [] then Some (Some (takeWhile isTokenChar s))
    else None"
  have refuse: "?k (c # cs) = None" if "isSpace c" for c cs
    unfolding space_start[OF that] by simp
  have run: "greedy isSpace 1 None t ?k =
      (if 1 \<le> length (takeWhile isSpace t) then ?k (dropWhile isSpace t) else None)" for t
    by (rule greedy_run) (rule refuse)
  have len: "length ''case'' = 4" by simp
  have step: "rx_run False caseId_rx s None (\<lambda>s' g'. Some g') =
      (case strip_lit False ''case'' s of
         None \<Rightarrow> None
       | Some t \<Rightarrow> greedy isSpace 1 None t ?k)"
    unfolding caseId_rx_def spaces_def rx_run.simps(1,2) rx_run.simps(3)[of _ "Lit _"]
      rx_run.simps(3)[of _ "Rep _ _ _ _"] token_after_spaces cls_space
    by (simp only: if_True)
  show ?thesis
    unfolding step run strip_lit_exact len caseTokenAt_def Let_def
    by (simp add: Suc_le_eq)
qed

lemma caseId_spec: "str_match False caseId_rx s = map_option Some (caseIdSpec s)"
proof (induction s)
  case Nil
  have "caseTokenAt [] = None" by (simp add: caseTokenAt_def)
  then show ?case using caseId_at[of "[]"] by simp
next
  case (Cons c cs)
  show ?case unfolding str_match.simps caseId_at Cons.IH
    by (cases "caseTokenAt (c # cs)") simp_all
qed

lemma caseIdMatch_spec:
  "group1 (caseIdMatch (trim (toLowerCase t))) = caseIdSpec (trim (toLowerCase t))"
proof -
  have "str_match True caseId_rx (trim (toLowerCase t)) =
        str_match False caseId_rx (trim (toLowerCase t))"
    by (rule str_match_lowered) (rule normalized_lower)
  then show ?thesis
    by (cases "caseIdSpec (trim (toLowerCase t))") (simp_all add: caseIdMatch_def caseId_spec group1_def)
qed

lemma caseIdSpec_skip:
  "(\<And>i. i < length pre \<Longrightarrow> caseTokenAt (drop i (pre @ s)) = None) \<Longrightarrow>
   caseIdSpec (pre @ s) = caseIdSpec s"
proof (induction pre)
  case Nil
  then show ?case by simp
next
  case (Cons a pre)
  from Cons.prems[of 0] have here: "caseTokenAt (a # pre @ s) = None" by simp
  have "caseTokenAt (drop i (pre @ s)) = None" if "i < length pre" for i
    using Cons.prems[of "Suc i"] that by simp
  from Cons.IH[OF this] here show ?case by simp
qed

lemma caseIdSpec_here: "caseTokenAt s = Some tok \<Longrightarrow> caseIdSpec s = Some tok"
  by (cases s) (simp_all add: caseTokenAt_def)

lemma token_not_space: "isTokenChar c \<Longrightarrow> \<not> isSpace c"
  using space_start(2)[of c "[]"] by auto

lemma caseTokenAt_token:
  assumes ws: "ws \<noteq> []" "\<And>c. c \<in> set ws \<Longrightarrow> isSpace c"
    and tok: "tok \<noteq> []" "\<And>c. c \<in> set tok \<Longrightarrow> isTokenChar c" "tok \<noteq> ''id''"
    and rest: "rest = [] \<or> \<not> isTokenChar (hd rest)"
  shows "caseTokenAt (''case'' @ ws @ tok @ rest) = Some tok"
proof -
  from tok(1) obtain x tok' where x: "tok = x # tok'" by (cases tok) auto
  with tok(2) have tx: "isTokenChar x" by simp
  then have nx: "\<not> isSpace x" by (rule token_not_space)
  have run: "takeWhile isSpace (ws @ tok @ rest) = ws"
    using ws(2) nx x by (simp add: takeWhile_append2)
  have after: "dropWhile isSpace (ws @ tok @ rest) = tok @ rest"
    using ws(2) nx x by (simp add: dropWhile_append2)
  have "takeWhile isTokenChar rest = []"
    using rest by (cases rest) auto
  then have token: "takeWhile isTokenChar (tok @ rest) = tok"
    using tok(2) by (simp add: takeWhile_append2)
  have no_id: "\<not> (prefix ''id'' (tok @ rest) \<and> takeWhile isSpace (drop 2 (tok @ rest)) \<noteq> [])"
  proof
    assume a: "prefix ''id'' (tok @ rest) \<and> takeWhile isSpace (drop 2 (tok @ rest)) \<noteq> []"
    show False
    proof (cases tok')
      case Nil
      with a x have "hd rest = CHR ''d''" and "rest \<noteq> []" by (cases rest; simp)+
      with rest show False by (simp add: isTokenChar_def code_def)
    next
      case (Cons y tok'')
      show False
      proof (cases tok'')
        case Nil
        with a x Cons tok(3) show False by simp
      next
        case (Cons z more)
        with x \<open>tok' = y # tok''\<close> tok(2) have "isTokenChar z" by simp
        then have "\<not> isSpace z" by (rule token_not_space)
        with a x \<open>tok' = y # tok''\<close> Cons show False by simp
      qed
    qed
  qed
  have "drop 4 (''case'' @ ws @ tok @ rest) = ws @ tok @ rest" by simp
  with run after token no_id ws(1) tok(1) show ?thesis
    unfolding caseTokenAt_def Let_def by auto
qed

text \<open>
  C10. For every host and every input the field \<open>caseId\<close> is the case id of the
  normalized text in the sense above. In particular, when the normalized text reads
  \<open>case\<close>, then white space, then a token other than \<open>id\<close> that ends at the end of the
  text or at a character that is not of a token, and no earlier place of the text has a
  token after \<open>case\<close>, the field \<open>caseId\<close> is that token, whatever the token is.
\<close>

theorem caseId_is_token_after_case:
  "\<exists>p. parseVoiceCommand env t = Inr p \<and>
       caseId (entities p) = caseIdSpec (trim (toLowerCase t)) \<and>
       (trim (toLowerCase t) = pre @ ''case'' @ ws @ tok @ rest \<and>
        list_all (\<lambda>i. caseTokenAt (drop i (trim (toLowerCase t))) = None) [0..<length pre] \<and>
        ws \<noteq> [] \<and> list_all isSpace ws \<and> tok \<noteq> [] \<and> list_all isTokenChar tok \<and>
        tok \<noteq> ''id'' \<and> (rest = [] \<or> \<not> isTokenChar (hd rest)) \<longrightarrow>
        caseId (entities p) = Some tok)"
proof -
  define n where "n = trim (toLowerCase t)"
  have spec: "caseIdSpec n = Some tok"
    if eq: "n = pre @ ''case'' @ ws @ tok @ rest"
      and first: "list_all (\<lambda>i. caseTokenAt (drop i n) = None) [0..<length pre]"
      and ws: "ws \<noteq> []" "list_all isSpace ws"
      and tok: "tok \<noteq> []" "list_all isTokenChar tok" "tok \<noteq> ''id''"
      and rest: "rest = [] \<or> \<not> isTokenChar (hd rest)"
  proof -
    have "caseTokenAt (drop i (pre @ ''case'' @ ws @ tok @ rest)) = None" if "i < length pre" for i
      using first that unfolding eq by (simp add: list_all_iff)
    then have "caseIdSpec (pre @ ''case'' @ ws @ tok @ rest) =
        caseIdSpec (''case'' @ ws @ tok @ rest)"
      by (rule caseIdSpec_skip)
    moreover have "caseTokenAt (''case'' @ ws @ tok @ rest) = Some tok"
      using ws tok rest by (intro caseTokenAt_token) (simp_all add: list_all_iff)
    ultimately show ?thesis unfolding eq by (simp add: caseIdSpec_here)
  qed
  obtain p where p: "parseVoiceCommand env t = Inr p"
    and c: "caseId (entities p) = caseIdSpec n"
    by (simp add: parseVoiceCommand_eq Let_def caseIdMatch_spec n_def)
  have "n = pre @ ''case'' @ ws @ tok @ rest \<and>
        list_all (\<lambda>i. caseTokenAt (drop i n) = None) [0..<length pre] \<and>
        ws \<noteq> [] \<and> list_all isSpace ws \<and> tok \<noteq> [] \<and> list_all isTokenChar tok \<and>
        tok \<noteq> ''id'' \<and> (rest = [] \<or> \<not> isTokenChar (hd rest)) \<longrightarrow>
        caseId (entities p) = Some tok"
  proof
    assume "n = pre @ ''case'' @ ws @ tok @ rest \<and>
        list_all (\<lambda>i. caseTokenAt (drop i n) = None) [0..<length pre] \<and>
        ws \<noteq> [] \<and> list_all isSpace ws \<and> tok \<noteq> [] \<and> list_all isTokenChar tok \<and>
        tok \<noteq> ''id'' \<and> (rest = [] \<or> \<not> isTokenChar (hd rest))"
    then have "caseIdSpec n = Some tok" using spec by blast
    with c show "caseId (entities p) = Some tok" by simp
  qed
  with p c show ?thesis unfolding n_def by blast
qed

lemma case_from_cue:
  "trim (toLowerCase ''Show me the case from yesterday'') =
     ''show me the '' @ ''case'' @ '' '' @ ''from'' @ '' yesterday''"
  "list_all (\<lambda>i. caseTokenAt (drop i (trim (toLowerCase ''Show me the case from yesterday''))) = None)
     [0..<length ''show me the '']"
  "list_all isSpace '' ''"
  "list_all isTokenChar ''from''"
  "\<not> isTokenChar (hd '' yesterday'')"
  "caseIdSpec (trim (toLowerCase ''case id CASE-2024-001'')) = Some ''case-2024-001''"
  by code_simp+

theorem caseId_is_token_after_case_witness:
  "trim (toLowerCase ''Show me the case from yesterday'') =
     ''show me the '' @ ''case'' @ '' '' @ ''from'' @ '' yesterday'' \<and>
   list_all (\<lambda>i. caseTokenAt (drop i (trim (toLowerCase ''Show me the case from yesterday''))) = None)
     [0..<length ''show me the ''] \<and>
   list_all isSpace '' '' \<and> list_all isTokenChar ''from'' \<and>
   (\<exists>p. parseVoiceCommand symbolic_host ''Show me the case from yesterday'' = Inr p \<and>
        caseId (entities p) = Some ''from'') \<and>
   (\<exists>p. parseVoiceCommand symbolic_host ''case id CASE-2024-001'' = Inr p \<and>
        caseId (entities p) = Some ''case-2024-001'')"
proof -
  from caseId_is_token_after_case[of symbolic_host "''Show me the case from yesterday''"
      "''show me the ''" "'' ''" "''from''" "'' yesterday''"]
  obtain p where p: "parseVoiceCommand symbolic_host ''Show me the case from yesterday'' = Inr p"
    and imp: "trim (toLowerCase ''Show me the case from yesterday'') =
        ''show me the '' @ ''case'' @ '' '' @ ''from'' @ '' yesterday'' \<and>
        list_all (\<lambda>i. caseTokenAt (drop i (trim (toLowerCase ''Show me the case from yesterday''))) =
                    None) [0..<length ''show me the ''] \<and>
        '' '' \<noteq> [] \<and> list_all isSpace '' '' \<and> ''from'' \<noteq> [] \<and> list_all isTokenChar ''from'' \<and>
        ''from'' \<noteq> ''id'' \<and> ('' yesterday'' = [] \<or> \<not> isTokenChar (hd '' yesterday'')) \<longrightarrow>
        caseId (entities p) = Some ''from''"
    by blast
  have "'' '' \<noteq> []" "''from'' \<noteq> []" "''from'' \<noteq> ''id''" by simp_all
  with imp case_from_cue(1-5) have a: "caseId (entities p) = Some ''from''" by blast
  from caseId_is_token_after_case[of symbolic_host "''case id CASE-2024-001''"]
  obtain q where q: "parseVoiceCommand symbolic_host ''case id CASE-2024-001'' = Inr q"
    and "caseId (entities q) = caseIdSpec (trim (toLowerCase ''case id CASE-2024-001''))"
    by blast
  then have b: "caseId (entities q) = Some ''case-2024-001''"
    unfolding case_from_cue(6) by simp
  from p a q b case_from_cue(1-4) show ?thesis by blast
qed

section \<open>Literal dates\<close>

lemma inside_bounded_run:
  "j < run_len p hi s \<Longrightarrow> \<exists>c cs. drop j s = c # cs \<and> p c"
proof (induction s arbitrary: j hi)
  case Nil
  then show ?case by (simp add: run_len_Nil)
next
  case (Cons a s)
  show ?case
  proof (cases j)
    case 0
    with Cons.prems show ?thesis by (auto simp: run_len_Cons split: if_splits)
  next
    case (Suc i)
    with Cons.prems have "i < run_len p (dec hi) s"
      by (auto simp: run_len_Cons split: if_splits)
    from Cons.IH[OF this] Suc show ?thesis by simp
  qed
qed

lemma greedy_refuse:
  assumes "\<And>c cs. p c \<Longrightarrow> k (c # cs) = None"
  shows "greedy p lo hi s k =
           (if lo \<le> run_len p hi s then k (drop (run_len p hi s) s) else None)"
proof (cases "lo \<le> run_len p hi s")
  case False
  then show ?thesis using greedy_short[of p hi s lo k] by simp
next
  case True
  show ?thesis
  proof (cases "k (drop (run_len p hi s) s)")
    case (Some r)
    with True greedy_hit[of lo p hi s k r] show ?thesis by simp
  next
    case None
    have "k (drop j s) = None" if "j \<le> run_len p hi s" for j
    proof (cases "j = run_len p hi s")
      case True
      with None show ?thesis by simp
    next
      case False
      with that have "j < run_len p hi s" by simp
      from inside_bounded_run[OF this] assms show ?thesis by auto
    qed
    then have "greedy p lo hi s k = None" by (intro greedy_miss) simp
    with True None show ?thesis by simp
  qed
qed

lemma greedy_exact:
  "greedy p n (Some n) s (\<lambda>s'. Some (f s')) =
     (if run_len p (Some n) s = n then Some (f (drop n s)) else None)"
proof (cases "run_len p (Some n) s = n")
  case True
  then have "n \<le> run_len p (Some n) s" by simp
  from greedy_hit[of n p "Some n" s "\<lambda>s'. Some (f s')" "f (drop n s)", OF this] True
  show ?thesis by simp
next
  case False
  have "run_len p (Some n) s \<le> n"
    unfolding run_len_def using length_takeWhile_le[of p "take n s"] by simp
  with False have "run_len p (Some n) s < n" by simp
  from greedy_short[OF this] False show ?thesis by simp
qed

lemma cls_digit: "in_class False [Digit] = isDigit"
  by (rule ext) (simp add: in_class_def fold_case_def)

lemma digit_not_slash: "isDigit c \<Longrightarrow> prefix ''/'' (c # cs) = False"
  by (auto simp: isDigit_def code_def)

lemma take_consumed: "take (length s - (length s - n)) s = take n s"
  by (cases "n \<le> length s") simp_all

lemma date_at: "rx_run False date_rx s None (\<lambda>s' g'. Some g') = map_option Some (dateAt s)"
proof -
  define k3 where "k3 t =
    (if run_len isDigit (Some 4) t = 4 then Some (Some (take (length s - length (drop 4 t)) s))
     else None)" for t
  define k2 where "k2 t =
    (case strip_lit False ''/'' t of None \<Rightarrow> None
     | Some t' \<Rightarrow> greedy isDigit 4 (Some 4) t'
         (\<lambda>s'. Some (Some (take (length s - length s') s))))" for t
  define k1 where "k1 t =
    (case strip_lit False ''/'' t of None \<Rightarrow> None
     | Some t' \<Rightarrow> greedy isDigit 1 (Some 2) t' k2)" for t
  have year: "greedy isDigit 4 (Some 4) t (\<lambda>s'. Some (Some (take (length s - length s') s))) = k3 t"
    for t
    unfolding k3_def by (rule greedy_exact)
  have k2: "k2 t = (if prefix ''/'' t then k3 (drop 1 t) else None)" for t
    unfolding k2_def year strip_lit_exact by simp
  have refuse2: "k2 (c # cs) = None" if "isDigit c" for c cs
    unfolding k2 digit_not_slash[OF that] by simp
  have day: "greedy isDigit 1 (Some 2) t k2 =
      (if 1 \<le> run_len isDigit (Some 2) t then k2 (drop (run_len isDigit (Some 2) t) t) else None)"
    for t
    by (rule greedy_refuse) (rule refuse2)
  have k1: "k1 t = (if prefix ''/'' t then greedy isDigit 1 (Some 2) (drop 1 t) k2 else None)" for t
    unfolding k1_def strip_lit_exact by simp
  have refuse1: "k1 (c # cs) = None" if "isDigit c" for c cs
    unfolding k1 digit_not_slash[OF that] by simp
  have month: "greedy isDigit 1 (Some 2) s k1 =
      (if 1 \<le> run_len isDigit (Some 2) s then k1 (drop (run_len isDigit (Some 2) s) s) else None)"
    by (rule greedy_refuse) (rule refuse1)
  have "rx_run False date_rx s None (\<lambda>s' g'. Some g') = greedy isDigit 1 (Some 2) s k1"
    unfolding date_rx_def rx_run.simps cls_digit if_True k1_def k2_def by (rule refl)
  also have "\<dots> = map_option Some (dateAt s)"
    unfolding month k1 day k2 k3_def dateAt_def Let_def
    by (simp add: take_consumed add.commute add.left_commute)
  finally show ?thesis .
qed

lemma date_spec: "str_match False date_rx s = map_option Some (firstDate s)"
proof (induction s)
  case Nil
  have "dateAt [] = None" by (simp add: dateAt_def run_len_Nil)
  then show ?case using date_at[of "[]"] by simp
next
  case (Cons c cs)
  show ?case unfolding str_match.simps date_at Cons.IH
    by (cases "dateAt (c # cs)") simp_all
qed

section \<open>Time ranges\<close>

lemma find_first:
  "P e \<Longrightarrow> \<forall>x\<in>set before. \<not> P x \<Longrightarrow> find P (before @ e # after) = Some e"
  by (induction before) simp_all

lemma find_none: "\<forall>x\<in>set xs. \<not> P x \<Longrightarrow> find P xs = None"
  by (induction xs) simp_all

lemma table_offsets: "(k, d, Some off) \<in> set TEMPORAL_KEYWORDS \<Longrightarrow> off \<noteq> 0"
  by (auto simp: TEMPORAL_KEYWORDS_def)

text \<open>
  C5. \<open>extractTimeRange\<close> follows the keyword table in its order. Whenever the table
  splits into \<open>before\<close>, an entry and \<open>after\<close>, the text contains the keyword of the
  entry and none of the keywords \<open>before\<close>, the result has that keyword as
  \<open>relative\<close>, starts at now minus the days of the entry and ends at now minus its
  offset, or at now when it has none. So a text with \<open>last week\<close> and without
  \<open>today\<close>, \<open>yesterday\<close> and \<open>this week\<close> gives the window from 14 to 7 days ago.
  When no keyword occurs, the first literal date of the text gives a range that starts
  and ends at the date made from it, without \<open>relative\<close>, and a text without a literal
  date gives no range. The field \<open>timeRange\<close> of a parse is the result of
  \<open>extractTimeRange\<close> on the normalized text, absent when there is no range.
\<close>

theorem extractTimeRange_first_keyword:
  "(TEMPORAL_KEYWORDS = before @ (keyword, days, offset) # after \<and>
    str_includes text keyword \<and> (\<forall>e\<in>set before. \<not> str_includes text (fst e)) \<longrightarrow>
      extractTimeRange env text =
        Some \<lparr>tr_start = Some (minusDays env (now env) days),
              tr_end = Some (case offset of None \<Rightarrow> now env
                             | Some off \<Rightarrow> minusDays env (now env) off),
              relative = Some keyword\<rparr>) \<and>
   (str_includes text ''last week'' \<and> \<not> str_includes text ''today'' \<and>
    \<not> str_includes text ''yesterday'' \<and> \<not> str_includes text ''this week'' \<longrightarrow>
      extractTimeRange env text =
        Some \<lparr>tr_start = Some (minusDays env (now env) 14),
              tr_end = Some (minusDays env (now env) 7), relative = Some ''last week''\<rparr>) \<and>
   ((\<forall>e\<in>set TEMPORAL_KEYWORDS. \<not> str_includes text (fst e)) \<longrightarrow>
      extractTimeRange env text =
        (case firstDate text of
           None \<Rightarrow> None
         | Some date \<Rightarrow>
             Some \<lparr>tr_start = Some (newDate env (Some date)),
                   tr_end = Some (newDate env (Some date)), relative = None\<rparr>)) \<and>
   (\<exists>p. parseVoiceCommand env t = Inr p \<and>
        timeRange (entities p) = extractTimeRange env (trim (toLowerCase t)))"
proof (intro conjI impI)
  assume a: "TEMPORAL_KEYWORDS = before @ (keyword, days, offset) # after \<and>
    str_includes text keyword \<and> (\<forall>e\<in>set before. \<not> str_includes text (fst e))"
  then have f: "find (\<lambda>entry. str_includes text (fst entry)) TEMPORAL_KEYWORDS =
      Some (keyword, days, offset)"
    using find_first[of "\<lambda>entry. str_includes text (fst entry)" "(keyword, days, offset)" before after]
    by simp
  from a have eq: "before @ (keyword, days, offset) # after = TEMPORAL_KEYWORDS" by simp
  have "(keyword, days, offset) \<in> set (before @ (keyword, days, offset) # after)" by simp
  then have "(keyword, days, offset) \<in> set TEMPORAL_KEYWORDS" unfolding eq .
  then have "offset = Some off \<Longrightarrow> off \<noteq> 0" for off using table_offsets by blast
  then show "extractTimeRange env text =
        Some \<lparr>tr_start = Some (minusDays env (now env) days),
              tr_end = Some (case offset of None \<Rightarrow> now env
                             | Some off \<Rightarrow> minusDays env (now env) off),
              relative = Some keyword\<rparr>"
    unfolding extractTimeRange_at(1)[OF f] by (cases offset) (simp_all add: windowOf_def)
next
  assume "str_includes text ''last week'' \<and> \<not> str_includes text ''today'' \<and>
    \<not> str_includes text ''yesterday'' \<and> \<not> str_includes text ''this week''"
  then have "find (\<lambda>entry. str_includes text (fst entry)) TEMPORAL_KEYWORDS =
      Some (''last week'', 14, Some 7)"
    by (simp add: TEMPORAL_KEYWORDS_def)
  from extractTimeRange_at(1)[OF this]
  show "extractTimeRange env text =
        Some \<lparr>tr_start = Some (minusDays env (now env) 14),
              tr_end = Some (minusDays env (now env) 7), relative = Some ''last week''\<rparr>"
    by (simp add: windowOf_def)
next
  assume "\<forall>e\<in>set TEMPORAL_KEYWORDS. \<not> str_includes text (fst e)"
  then have n: "find (\<lambda>entry. str_includes text (fst entry)) TEMPORAL_KEYWORDS = None"
    by (rule find_none)
  show "extractTimeRange env text =
        (case firstDate text of
           None \<Rightarrow> None
         | Some date \<Rightarrow>
             Some \<lparr>tr_start = Some (newDate env (Some date)),
                   tr_end = Some (newDate env (Some date)), relative = None\<rparr>)"
  proof (cases "firstDate text")
    case None
    then have "str_match False date_rx text = None" by (simp add: date_spec)
    from extractTimeRange_at(2)[OF n this] None show ?thesis by simp
  next
    case (Some date)
    then have "str_match False date_rx text = Some (Some date)" by (simp add: date_spec)
    from extractTimeRange_at(3)[OF n this] Some show ?thesis by simp
  qed
next
  show "\<exists>p. parseVoiceCommand env t = Inr p \<and>
        timeRange (entities p) = extractTimeRange env (trim (toLowerCase t))"
    by (simp add: parseVoiceCommand_eq Let_def)
qed

lemma last_week_pieces:
  "str_includes ''find cases near sector 9 from last week'' ''last week''"
  "\<not> str_includes ''find cases near sector 9 from last week'' ''today''"
  "\<not> str_includes ''find cases near sector 9 from last week'' ''yesterday''"
  "\<not> str_includes ''find cases near sector 9 from last week'' ''this week''"
  "find (\<lambda>entry. str_includes ''cases reported on 12/25/2024'' (fst entry)) TEMPORAL_KEYWORDS = None"
  "list_all (\<lambda>entry. \<not> str_includes ''cases reported on 12/25/2024'' (fst entry)) TEMPORAL_KEYWORDS"
  "firstDate ''cases reported on 12/25/2024'' = Some ''12/25/2024''"
  by code_simp+

theorem extractTimeRange_first_keyword_witness:
  "str_includes ''find cases near sector 9 from last week'' ''last week'' \<and>
   \<not> str_includes ''find cases near sector 9 from last week'' ''today'' \<and>
   \<not> str_includes ''find cases near sector 9 from last week'' ''yesterday'' \<and>
   \<not> str_includes ''find cases near sector 9 from last week'' ''this week'' \<and>
   extractTimeRange symbolic_host ''find cases near sector 9 from last week'' =
     Some \<lparr>tr_start = Some (Before Now 14), tr_end = Some (Before Now 7),
           relative = Some ''last week''\<rparr> \<and>
   find (\<lambda>entry. str_includes ''cases reported on 12/25/2024'' (fst entry)) TEMPORAL_KEYWORDS =
     None \<and>
   extractTimeRange symbolic_host ''cases reported on 12/25/2024'' =
     Some \<lparr>tr_start = Some (Parsed (Some ''12/25/2024'')),
           tr_end = Some (Parsed (Some ''12/25/2024'')), relative = None\<rparr>"
proof -
  have none: "\<forall>e\<in>set TEMPORAL_KEYWORDS.
      \<not> str_includes ''cases reported on 12/25/2024'' (fst e)"
    using last_week_pieces(6) by (simp add: list_all_iff)
  have split: "TEMPORAL_KEYWORDS =
      [(''today'', 0, None), (''yesterday'', 1, None), (''this week'', 7, None)] @
      (''last week'', 14, Some 7) #
      [(''this month'', 30, None), (''last month'', 60, Some 30), (''this year'', 365, None)]"
    by (simp add: TEMPORAL_KEYWORDS_def)
  have before: "\<forall>e\<in>set [(''today'', 0, None), (''yesterday'', 1, None), (''this week'', 7, None)].
      \<not> str_includes ''find cases near sector 9 from last week'' (fst e)"
    using last_week_pieces(2-4) by simp
  from extractTimeRange_first_keyword[of
      "[(''today'', 0, None), (''yesterday'', 1, None), (''this week'', 7, None)]"
      "''last week''" 14 "Some 7"
      "[(''this month'', 30, None), (''last month'', 60, Some 30), (''this year'', 365, None)]"
      "''find cases near sector 9 from last week''" symbolic_host]
    split before last_week_pieces(1)
  have a: "extractTimeRange symbolic_host ''find cases near sector 9 from last week'' =
     Some \<lparr>tr_start = Some (Before Now 14), tr_end = Some (Before Now 7),
           relative = Some ''last week''\<rparr>"
    by (simp add: symbolic_host_def)
  from extractTimeRange_first_keyword[of before keyword days offset after
      "''cases reported on 12/25/2024''" symbolic_host] none
  have b: "extractTimeRange symbolic_host ''cases reported on 12/25/2024'' =
     Some \<lparr>tr_start = Some (Parsed (Some ''12/25/2024'')),
           tr_end = Some (Parsed (Some ''12/25/2024'')), relative = None\<rparr>"
    unfolding last_week_pieces(7) by (simp add: symbolic_host_def)
  from a b last_week_pieces(1-5) show ?thesis by simp
qed

end
